theory Spec2Isabelle
  imports Main "HOL-Library.Sublist"
begin

section \<open>Characters and the two compiled patterns\<close>

text \<open>
  A Python \<^verbatim>\<open>str\<close> is modelled as a \<^typ>\<open>string\<close>; a \<^typ>\<open>char\<close> stands for a code point
  below 256. \<^verbatim>\<open>\s\<close> of a \<^verbatim>\<open>str\<close> pattern and \<^verbatim>\<open>str.rstrip()\<close> use the same
  set of whitespace characters; below 256 these are the twelve listed here.
\<close>

definition is_space :: "char \<Rightarrow> bool" where
  "is_space c \<longleftrightarrow> c \<in> set [CHR 0x09, CHR 0x0A, CHR 0x0B, CHR 0x0C, CHR 0x0D,
     CHR 0x1C, CHR 0x1D, CHR 0x1E, CHR 0x1F, CHR 0x20, CHR 0x85, CHR 0xA0]"

text \<open>The class \<^verbatim>\<open>[a-zA-Z0-9_]\<close> of \<^verbatim>\<open>VAR_RE\<close>.\<close>

definition is_word_char :: "char \<Rightarrow> bool" where
  "is_word_char c \<longleftrightarrow>
     (let n = (of_char c :: nat) in
      (97 \<le> n \<and> n \<le> 122) \<or> (65 \<le> n \<and> n \<le> 90) \<or> (48 \<le> n \<and> n \<le> 57) \<or> c = CHR ''_'')"

text \<open>The class \<^verbatim>\<open>[a-zA-Z0-9_./-]\<close> of \<^verbatim>\<open>INCLUDE_RE\<close>.\<close>

definition is_path_char :: "char \<Rightarrow> bool" where
  "is_path_char c \<longleftrightarrow> is_word_char c \<or> c = CHR ''.'' \<or> c = CHR ''/'' \<or> c = CHR ''-''"

datatype pattern = INCLUDE_RE | VAR_RE

text \<open>A literal piece of a pattern: the text must start with it.\<close>

definition lit :: "string \<Rightarrow> string \<Rightarrow> string option" where
  "lit p s = (if take (length p) s = p then Some (drop (length p) s) else None)"

text \<open>\<^verbatim>\<open>\s*\<close>, greedy.\<close>

definition spaces :: "string \<Rightarrow> string" where
  "spaces s = dropWhile is_space s"

text \<open>A capturing group \<^verbatim>\<open>([...]+)\<close>, greedy: the group and the text after it.\<close>

definition group1 :: "(char \<Rightarrow> bool) \<Rightarrow> string \<Rightarrow> (string \<times> string) option" where
  "group1 cls s = (if takeWhile cls s = [] then None else Some (takeWhile cls s, dropWhile cls s))"

text \<open>
  An attempt to match a pattern at the start of a text: group 1 of the match and the text
  after the match. In both patterns a piece that repeats is followed by a piece that none
  of the repeated characters can start, so the greedy choice is the only one and the
  matcher never backtracks.
\<close>

definition match_at :: "pattern \<Rightarrow> string \<Rightarrow> (string \<times> string) option" where
  "match_at pat s =
     (case lit ''{{'' s of None \<Rightarrow> None | Some s1 \<Rightarrow>
      (case (case pat of INCLUDE_RE \<Rightarrow> (case lit ''include:'' (spaces s1) of
                                           None \<Rightarrow> None
                                         | Some s2 \<Rightarrow> group1 is_path_char (spaces s2))
                       | VAR_RE \<Rightarrow> group1 is_word_char (spaces s1)) of
         None \<Rightarrow> None
       | Some (g, s3) \<Rightarrow>
         (case lit ''}}'' (spaces s3) of None \<Rightarrow> None | Some rest \<Rightarrow> Some (g, rest))))"

text \<open>
  The scan of \<^verbatim>\<open>pattern.sub(repl, text)\<close>: the matches are found from left to right and
  do not overlap; a character no match covers is kept. A match carries its whole text
  (group 0) and its group 1.
\<close>

datatype token = Lit char | Hit string string

lemma lit_suffix: "lit p s = Some r \<Longrightarrow> suffix r s"
  by (auto simp: lit_def suffix_drop split: if_splits)

lemma lit_append: "lit p s = Some r \<Longrightarrow> s = p @ r"
  by (auto simp: lit_def split: if_splits) (metis append_take_drop_id)

lemma spaces_suffix: "suffix (spaces s) s"
  by (simp add: spaces_def suffix_dropWhile)

lemma group1_suffix: "group1 cls s = Some (g, r) \<Longrightarrow> suffix r s"
  by (auto simp: group1_def suffix_dropWhile split: if_splits)

lemma match_at_inner_suffix:
  assumes "(case pat of INCLUDE_RE \<Rightarrow> (case lit ''include:'' (spaces s1) of
                                           None \<Rightarrow> None
                                         | Some s2 \<Rightarrow> group1 is_path_char (spaces s2))
                       | VAR_RE \<Rightarrow> group1 is_word_char (spaces s1)) = Some (g, s3)"
  shows "suffix s3 s1"
proof (cases pat)
  case INCLUDE_RE
  with assms obtain s2 where l: "lit ''include:'' (spaces s1) = Some s2"
    and g: "group1 is_path_char (spaces s2) = Some (g, s3)"
    by (auto split: option.splits)
  have "suffix s3 (spaces s2)" using g by (rule group1_suffix)
  also have "suffix (spaces s2) s2" by (rule spaces_suffix)
  also have "suffix s2 (spaces s1)" using l by (rule lit_suffix)
  also have "suffix (spaces s1) s1" by (rule spaces_suffix)
  finally show ?thesis .
next
  case VAR_RE
  with assms have "group1 is_word_char (spaces s1) = Some (g, s3)" by simp
  then have "suffix s3 (spaces s1)" by (rule group1_suffix)
  also have "suffix (spaces s1) s1" by (rule spaces_suffix)
  finally show ?thesis .
qed

lemma match_at_split:
  assumes "match_at pat s = Some (g, r)"
  shows "\<exists>m. s = ''{{'' @ m @ r"
proof -
  from assms obtain s1 s3 where l1: "lit ''{{'' s = Some s1"
    and inner: "(case pat of INCLUDE_RE \<Rightarrow> (case lit ''include:'' (spaces s1) of
                                           None \<Rightarrow> None
                                         | Some s2 \<Rightarrow> group1 is_path_char (spaces s2))
                       | VAR_RE \<Rightarrow> group1 is_word_char (spaces s1)) = Some (g, s3)"
    and l2: "lit ''}}'' (spaces s3) = Some r"
    unfolding match_at_def by (auto split: option.splits)
  have "suffix r (spaces s3)" using l2 by (rule lit_suffix)
  also have "suffix (spaces s3) s3" by (rule spaces_suffix)
  also have "suffix s3 s1" using inner by (rule match_at_inner_suffix)
  finally obtain m where "s1 = m @ r" by (auto simp: suffix_def)
  with lit_append [OF l1] show ?thesis by auto
qed

lemma match_at_shorter: "match_at pat s = Some (g, r) \<Longrightarrow> length r < length s"
  by (drule match_at_split) auto

function tokens :: "pattern \<Rightarrow> string \<Rightarrow> token list" where
  "tokens pat [] = []"
| "tokens pat (c # cs) =
     (case match_at pat (c # cs) of
        None \<Rightarrow> Lit c # tokens pat cs
      | Some (g, rest) \<Rightarrow> Hit (take (length (c # cs) - length rest) (c # cs)) g # tokens pat rest)"
  by pat_completeness auto
termination
  by (relation "measure (\<lambda>(pat, s). length s)") (auto dest: match_at_shorter)


text \<open>
  The text a scan covers, and group 1 of its matches from left to right: the relative
  paths of the include directives, or the keys of the variable placeholders.
\<close>

fun raw :: "token list \<Rightarrow> string" where
  "raw [] = []"
| "raw (Lit c # ts) = c # raw ts"
| "raw (Hit w g # ts) = w @ raw ts"

fun groups :: "token list \<Rightarrow> string list" where
  "groups [] = []"
| "groups (Lit c # ts) = groups ts"
| "groups (Hit w g # ts) = g # groups ts"

section \<open>The matcher and the patterns\<close>

text \<open>
  What a match of each pattern is, read off the regular expression: the braces, optional
  whitespace, for an include the word \<^verbatim>\<open>include:\<close> and optional whitespace, the group (not
  empty, of the characters of its class), optional whitespace and the closing braces. A
  text starts with at most one such match, and \<open>match_at\<close> finds it.
\<close>

lemma dropWhile_run:
  "\<forall>c \<in> set w. P c \<Longrightarrow> rest = [] \<or> \<not> P (hd rest) \<Longrightarrow> dropWhile P (w @ rest) = rest"
  by (induction w) (auto simp: dropWhile_eq_self_iff)

lemma takeWhile_run:
  "\<forall>c \<in> set w. P c \<Longrightarrow> rest = [] \<or> \<not> P (hd rest) \<Longrightarrow> takeWhile P (w @ rest) = w"
  by (induction w) (auto simp: takeWhile_eq_Nil_iff)

lemma lit_prefix: "lit p (p @ r) = Some r"
  by (simp add: lit_def)

lemma lit_Some_iff: "lit p s = Some r \<longleftrightarrow> s = p @ r"
  using lit_append lit_prefix by blast

lemma spaces_run:
  "\<forall>c \<in> set w. is_space c \<Longrightarrow> rest = [] \<or> \<not> is_space (hd rest) \<Longrightarrow> spaces (w @ rest) = rest"
  unfolding spaces_def by (rule dropWhile_run)

lemma spaces_split: "\<exists>w. s = w @ spaces s \<and> (\<forall>c \<in> set w. is_space c)"
  unfolding spaces_def
  by (rule exI [of _ "takeWhile is_space s"]) (auto dest: set_takeWhileD)

lemma group1_run:
  "g \<noteq> [] \<Longrightarrow> \<forall>c \<in> set g. cls c \<Longrightarrow> rest = [] \<or> \<not> cls (hd rest) \<Longrightarrow>
   group1 cls (g @ rest) = Some (g, rest)"
  unfolding group1_def
  by (simp only: takeWhile_run [of g cls rest] dropWhile_run [of g cls rest] if_False)

lemma group1_split:
  "group1 cls s = Some (g, rest) \<Longrightarrow> s = g @ rest \<and> g \<noteq> [] \<and> (\<forall>c \<in> set g. cls c)"
  by (auto simp: group1_def split: if_splits dest: set_takeWhileD)

lemma space_not_word: "is_space c \<Longrightarrow> \<not> is_path_char c"
  by (auto simp: is_space_def is_path_char_def is_word_char_def)

lemma word_is_path_char: "is_word_char c \<Longrightarrow> is_path_char c"
  by (simp add: is_path_char_def)

lemma brace_no_class [simp]:
  "\<not> is_space CHR ''}''" "\<not> is_path_char CHR ''}''" "\<not> is_word_char CHR ''}''"
  "\<not> is_space CHR ''i''"
  by (simp_all add: is_space_def is_path_char_def is_word_char_def)

lemma match_at_VAR_RE_iff:
  "match_at VAR_RE s = Some (g, rest) \<longleftrightarrow>
     (\<exists>w1 w2. s = ''{{'' @ w1 @ g @ w2 @ ''}}'' @ rest
        \<and> (\<forall>c \<in> set w1. is_space c) \<and> g \<noteq> [] \<and> (\<forall>c \<in> set g. is_word_char c)
        \<and> (\<forall>c \<in> set w2. is_space c))"
proof
  assume "match_at VAR_RE s = Some (g, rest)"
  then obtain s1 s3 where l1: "lit ''{{'' s = Some s1"
    and g: "group1 is_word_char (spaces s1) = Some (g, s3)"
    and l2: "lit ''}}'' (spaces s3) = Some rest"
    by (auto simp: match_at_def split: option.splits)
  obtain w1 where w1: "s1 = w1 @ spaces s1" "\<forall>c \<in> set w1. is_space c"
    using spaces_split by blast
  obtain w2 where w2: "s3 = w2 @ spaces s3" "\<forall>c \<in> set w2. is_space c"
    using spaces_split by blast
  from group1_split [OF g] have gs: "spaces s1 = g @ s3" "g \<noteq> []" "\<forall>c \<in> set g. is_word_char c"
    by simp_all
  have "s = ''{{'' @ w1 @ g @ w2 @ ''}}'' @ rest"
    using lit_append [OF l1] lit_append [OF l2] w1(1) w2(1) gs(1) by (metis append_assoc)
  with w1(2) w2(2) gs(2,3) show "\<exists>w1 w2. s = ''{{'' @ w1 @ g @ w2 @ ''}}'' @ rest
        \<and> (\<forall>c \<in> set w1. is_space c) \<and> g \<noteq> [] \<and> (\<forall>c \<in> set g. is_word_char c)
        \<and> (\<forall>c \<in> set w2. is_space c)"
    by blast
next
  assume "\<exists>w1 w2. s = ''{{'' @ w1 @ g @ w2 @ ''}}'' @ rest
        \<and> (\<forall>c \<in> set w1. is_space c) \<and> g \<noteq> [] \<and> (\<forall>c \<in> set g. is_word_char c)
        \<and> (\<forall>c \<in> set w2. is_space c)"
  then obtain w1 w2 where s: "s = ''{{'' @ w1 @ g @ w2 @ ''}}'' @ rest"
    and w1: "\<forall>c \<in> set w1. is_space c" and g: "g \<noteq> []" "\<forall>c \<in> set g. is_word_char c"
    and w2: "\<forall>c \<in> set w2. is_space c"
    by blast
  have a: "lit ''{{'' s = Some (w1 @ g @ w2 @ ''}}'' @ rest)"
    unfolding s by (rule lit_prefix)
  have "\<not> is_space (hd g)" using g space_not_word word_is_path_char by (cases g) auto
  then have b: "spaces (w1 @ g @ w2 @ ''}}'' @ rest) = g @ w2 @ ''}}'' @ rest"
    using w1 g(1) by (intro spaces_run) auto
  have "\<not> is_word_char (hd (w2 @ ''}}'' @ rest))"
    using w2 space_not_word word_is_path_char by (cases w2) auto
  then have c: "group1 is_word_char (g @ w2 @ ''}}'' @ rest) = Some (g, w2 @ ''}}'' @ rest)"
    using g by (intro group1_run) auto
  have d: "spaces (w2 @ ''}}'' @ rest) = ''}}'' @ rest"
    using w2 by (intro spaces_run) auto
  have e: "lit ''}}'' (''}}'' @ rest) = Some rest" by (rule lit_prefix)
  show "match_at VAR_RE s = Some (g, rest)"
    unfolding match_at_def by (simp add: a b c d e del: append.simps)
qed

lemma match_at_INCLUDE_RE_iff:
  "match_at INCLUDE_RE s = Some (g, rest) \<longleftrightarrow>
     (\<exists>w1 w2 w3. s = ''{{'' @ w1 @ ''include:'' @ w2 @ g @ w3 @ ''}}'' @ rest
        \<and> (\<forall>c \<in> set w1. is_space c) \<and> (\<forall>c \<in> set w2. is_space c)
        \<and> g \<noteq> [] \<and> (\<forall>c \<in> set g. is_path_char c) \<and> (\<forall>c \<in> set w3. is_space c))"
proof
  assume "match_at INCLUDE_RE s = Some (g, rest)"
  then obtain s1 s2 s3 where l1: "lit ''{{'' s = Some s1"
    and li: "lit ''include:'' (spaces s1) = Some s2"
    and g: "group1 is_path_char (spaces s2) = Some (g, s3)"
    and l2: "lit ''}}'' (spaces s3) = Some rest"
    by (auto simp: match_at_def split: option.splits)
  obtain w1 where w1: "s1 = w1 @ spaces s1" "\<forall>c \<in> set w1. is_space c"
    using spaces_split by blast
  obtain w2 where w2: "s2 = w2 @ spaces s2" "\<forall>c \<in> set w2. is_space c"
    using spaces_split by blast
  obtain w3 where w3: "s3 = w3 @ spaces s3" "\<forall>c \<in> set w3. is_space c"
    using spaces_split by blast
  from group1_split [OF g] have gs: "spaces s2 = g @ s3" "g \<noteq> []" "\<forall>c \<in> set g. is_path_char c"
    by simp_all
  have "s = ''{{'' @ w1 @ ''include:'' @ w2 @ g @ w3 @ ''}}'' @ rest"
    using lit_append [OF l1] lit_append [OF li] lit_append [OF l2] w1(1) w2(1) w3(1) gs(1)
    by (metis append_assoc)
  with w1(2) w2(2) w3(2) gs(2,3)
  show "\<exists>w1 w2 w3. s = ''{{'' @ w1 @ ''include:'' @ w2 @ g @ w3 @ ''}}'' @ rest
        \<and> (\<forall>c \<in> set w1. is_space c) \<and> (\<forall>c \<in> set w2. is_space c)
        \<and> g \<noteq> [] \<and> (\<forall>c \<in> set g. is_path_char c) \<and> (\<forall>c \<in> set w3. is_space c)"
    by blast
next
  assume "\<exists>w1 w2 w3. s = ''{{'' @ w1 @ ''include:'' @ w2 @ g @ w3 @ ''}}'' @ rest
        \<and> (\<forall>c \<in> set w1. is_space c) \<and> (\<forall>c \<in> set w2. is_space c)
        \<and> g \<noteq> [] \<and> (\<forall>c \<in> set g. is_path_char c) \<and> (\<forall>c \<in> set w3. is_space c)"
  then obtain w1 w2 w3 where s: "s = ''{{'' @ w1 @ ''include:'' @ w2 @ g @ w3 @ ''}}'' @ rest"
    and w1: "\<forall>c \<in> set w1. is_space c" and w2: "\<forall>c \<in> set w2. is_space c"
    and g: "g \<noteq> []" "\<forall>c \<in> set g. is_path_char c"
    and w3: "\<forall>c \<in> set w3. is_space c"
    by blast
  have a: "lit ''{{'' s = Some (w1 @ ''include:'' @ w2 @ g @ w3 @ ''}}'' @ rest)"
    unfolding s by (rule lit_prefix)
  have b: "spaces (w1 @ ''include:'' @ w2 @ g @ w3 @ ''}}'' @ rest)
             = ''include:'' @ w2 @ g @ w3 @ ''}}'' @ rest"
    using w1 by (intro spaces_run) auto
  have c: "lit ''include:'' (''include:'' @ w2 @ g @ w3 @ ''}}'' @ rest)
             = Some (w2 @ g @ w3 @ ''}}'' @ rest)"
    by (rule lit_prefix)
  have "\<not> is_space (hd g)" using g space_not_word by (cases g) auto
  then have d: "spaces (w2 @ g @ w3 @ ''}}'' @ rest) = g @ w3 @ ''}}'' @ rest"
    using w2 g(1) by (intro spaces_run) auto
  have "\<not> is_path_char (hd (w3 @ ''}}'' @ rest))"
    using w3 space_not_word by (cases w3) auto
  then have e: "group1 is_path_char (g @ w3 @ ''}}'' @ rest) = Some (g, w3 @ ''}}'' @ rest)"
    using g by (intro group1_run) auto
  have f: "spaces (w3 @ ''}}'' @ rest) = ''}}'' @ rest"
    using w3 by (intro spaces_run) auto
  have h: "lit ''}}'' (''}}'' @ rest) = Some rest" by (rule lit_prefix)
  show "match_at INCLUDE_RE s = Some (g, rest)"
    unfolding match_at_def by (simp add: a b c d e f h del: append.simps)
qed

section \<open>Paths\<close>

text \<open>
  A \<^verbatim>\<open>pathlib.Path\<close> on a POSIX system: the root (empty, \<^verbatim>\<open>/\<close> or \<^verbatim>\<open>//\<close>) and the
  names after it. Two paths are equal when both are; \<^verbatim>\<open>path in stack\<close> compares paths
  this way, so two spellings of one file (through \<^verbatim>\<open>..\<close> or a link) are two paths.
\<close>

datatype path = Path (proot: string) (ptail: "string list")

text \<open>\<^verbatim>\<open>str.split('/')\<close>.\<close>

fun split_sep :: "string \<Rightarrow> string list" where
  "split_sep [] = [[]]"
| "split_sep (c # cs) =
     (if c = CHR ''/'' then [] # split_sep cs
      else (case split_sep cs of [] \<Rightarrow> [[c]] | x # xs \<Rightarrow> (c # x) # xs))"

text \<open>\<^verbatim>\<open>sep.join(xs)\<close>.\<close>

fun join_str :: "string \<Rightarrow> string list \<Rightarrow> string" where
  "join_str sep [] = []"
| "join_str sep [x] = x"
| "join_str sep (x # y # ys) = x @ sep @ join_str sep (y # ys)"

text \<open>\<^verbatim>\<open>posixpath.splitroot\<close>: exactly two leading slashes are a root of their own.\<close>

definition splitroot :: "string \<Rightarrow> string \<times> string" where
  "splitroot p =
     (if take 1 p \<noteq> ''/'' then ([], p)
      else if take 1 (drop 1 p) \<noteq> ''/'' \<or> take 1 (drop 2 p) = ''/'' then (''/'', drop 1 p)
      else (take 2 p, drop 2 p))"

text \<open>The path a string denotes: empty names and \<^verbatim>\<open>.\<close> are dropped, \<^verbatim>\<open>..\<close> is kept.\<close>

definition parse_path :: "string \<Rightarrow> path" where
  "parse_path s =
     (case splitroot s of
        (root, rel) \<Rightarrow> Path root (filter (\<lambda>x. x \<noteq> [] \<and> x \<noteq> ''.'') (split_sep rel)))"

text \<open>\<^verbatim>\<open>base / key\<close>: a key that starts with a slash replaces the base.\<close>

definition joinpath :: "path \<Rightarrow> string \<Rightarrow> path" where
  "joinpath base key =
     (if take 1 key = ''/'' then parse_path key
      else Path (proot base) (ptail base @ ptail (parse_path key)))"

text \<open>\<^verbatim>\<open>str(p)\<close>.\<close>

definition str_path :: "path \<Rightarrow> string" where
  "str_path p =
     (if proot p = [] \<and> ptail p = [] then ''.''
      else proot p @ join_str ''/'' (ptail p))"

section \<open>Errors and the file system\<close>

text \<open>
  The exceptions of the program. The first three are raised by the source itself, each
  with its message; the others by the library or the interpreter: \<open>ValueError p base\<close> by
  \<^verbatim>\<open>p.relative_to(base)\<close> when \<open>p\<close> is not below \<open>base\<close>; \<open>NoSuchFile\<close> (Python's
  \<^verbatim>\<open>FileNotFoundError\<close> of the operating system), \<open>IsADirectory\<close>, \<open>NotADirectory\<close> and
  \<open>OSError\<close> (any other refusal of the operating system, such as a name that is too long,
  a directory that may not be searched or a file that may not be opened) by looking a path
  up, reading or writing;
  \<open>RecursionError\<close>, which in Python is a kind of \<^verbatim>\<open>RuntimeError\<close>, by a call that nests
  deeper than the interpreter allows.
\<close>

datatype error =
    RuntimeError string
  | FileNotFoundError string
  | KeyError string
  | ValueError path path
  | NoSuchFile path
  | IsADirectory path
  | NotADirectory path
  | OSError path
  | RecursionError

text \<open>\<^verbatim>\<open>p.relative_to(base)\<close>, without \<^verbatim>\<open>walk_up\<close>.\<close>

definition relative_to :: "path \<Rightarrow> path \<Rightarrow> error + path" where
  "relative_to p base =
     (if proot p = proot base \<and> prefix (ptail base) (ptail p)
      then Inr (Path [] (drop (length (ptail base)) (ptail p)))
      else Inl (ValueError p base))"

text \<open>
  The file system lists the paths that the program can meet: a regular file with its
  text, a directory, a file that exists and may not be opened, or a path that the
  operating system refuses to look up with an error other than a missing file. A path
  that is not listed does not exist. Two names of one
  file are two entries. The list is finite, which is no restriction: the files are
  finitely many and each has finitely many directives, so a render asks for finitely many
  paths. The text of a file is what \<^verbatim>\<open>read_text\<close> returns and what \<^verbatim>\<open>write_text\<close> was
  given; decoding and newline translation are not modelled.
\<close>

datatype node = File string | Directory | Unreadable | Refused

type_synonym filesystem = "(path \<times> node) list"

text \<open>
  \<^verbatim>\<open>p.exists()\<close>: false for a missing path; an error of the operating system other than
  a missing file is raised again.
\<close>

definition path_exists :: "filesystem \<Rightarrow> path \<Rightarrow> error + bool" where
  "path_exists fs p =
     (case map_of fs p of
        None \<Rightarrow> Inr False
      | Some Refused \<Rightarrow> Inl (OSError p)
      | Some Unreadable \<Rightarrow> Inr True
      | Some (File content) \<Rightarrow> Inr True
      | Some Directory \<Rightarrow> Inr True)"

definition read_text :: "filesystem \<Rightarrow> path \<Rightarrow> error + string" where
  "read_text fs p =
     (case map_of fs p of
        None \<Rightarrow> Inl (NoSuchFile p)
      | Some Refused \<Rightarrow> Inl (OSError p)
      | Some Unreadable \<Rightarrow> Inl (OSError p)
      | Some Directory \<Rightarrow> Inl (IsADirectory p)
      | Some (File content) \<Rightarrow> Inr content)"

text \<open>\<^verbatim>\<open>p.parent\<close>.\<close>

definition parent :: "path \<Rightarrow> path" where
  "parent p = Path (proot p) (butlast (ptail p))"

text \<open>
  \<^verbatim>\<open>p.write_text(content)\<close>: the file is created or replaced; its directory must exist.
\<close>

definition write_text :: "filesystem \<Rightarrow> path \<Rightarrow> string \<Rightarrow> error + filesystem" where
  "write_text fs p content =
     (case map_of fs p of
        Some Refused \<Rightarrow> Inl (OSError p)
      | Some Unreadable \<Rightarrow> Inl (OSError p)
      | Some Directory \<Rightarrow> Inl (IsADirectory p)
      | _ \<Rightarrow>
          (case map_of fs (parent p) of
             None \<Rightarrow> Inl (NoSuchFile p)
           | Some Refused \<Rightarrow> Inl (OSError p)
           | Some Unreadable \<Rightarrow> Inl (NotADirectory p)
           | Some (File c) \<Rightarrow> Inl (NotADirectory p)
           | Some Directory \<Rightarrow> Inr ((p, File content) # fs)))"

section \<open>The template renderer\<close>

type_synonym dict = "string \<rightharpoonup> string"

text \<open>
  The chain of a cycle message: every path of the stack and the repeated one, each
  relative to the template directory, from left to right.
\<close>

fun relative_strs :: "path \<Rightarrow> path list \<Rightarrow> error + string list" where
  "relative_strs tdir [] = Inr []"
| "relative_strs tdir (p # ps) =
     (case relative_to p tdir of
        Inl e \<Rightarrow> Inl e
      | Inr r \<Rightarrow> (case relative_strs tdir ps of
                   Inl e \<Rightarrow> Inl e
                 | Inr rs \<Rightarrow> Inr (str_path r # rs)))"

text \<open>\<^verbatim>\<open>VAR_RE.sub(var_replacer, text)\<close> over the scanned text.\<close>

fun var_sub :: "dict \<Rightarrow> path \<Rightarrow> token list \<Rightarrow> error + string" where
  "var_sub ctx path [] = Inr []"
| "var_sub ctx path (Lit c # ts) =
     (case var_sub ctx path ts of Inl e \<Rightarrow> Inl e | Inr r \<Rightarrow> Inr (c # r))"
| "var_sub ctx path (Hit w key # ts) =
     (case ctx key of
        None \<Rightarrow> Inl (KeyError (''Missing template variable '' @ [CHR 0x27] @ key @ [CHR 0x27]
                                @ '' for '' @ str_path path))
      | Some v \<Rightarrow> (case var_sub ctx path ts of Inl e \<Rightarrow> Inl e | Inr r \<Rightarrow> Inr (v @ r)))"

text \<open>
  What a run does besides returning: the calls of \<^verbatim>\<open>_render_template\<close>, each with its
  stack and its path, and the calls of \<^verbatim>\<open>read_text\<close>, in the order in which they happen.
\<close>

datatype event = Call "path list" path | Read path

text \<open>
  \<^verbatim>\<open>_render_template(path, context, stack)\<close>, with the template directory, the file system
  and the depth to which the interpreter lets calls nest as parameters; the result is
  the events of the call and what it returns or raises. \<open>run_include_sub\<close> is
  \<^verbatim>\<open>INCLUDE_RE.sub(include_replacer, text)\<close> over the scanned text: the replacer is called
  for the matches from left to right, with the stack \<^verbatim>\<open>(*stack, path)\<close>, and the first
  exception ends the call. The top-level call has the empty stack, and the depth of a call
  is the length of its stack; calls of a depth up to \<open>max_depth\<close> run in full, and an
  include that would nest deeper raises \<^verbatim>\<open>RecursionError\<close>. (The interpreter's recursion
  limit and the frames that each level uses decide \<open>max_depth\<close>.) The recursion ends because a call past the cycle check puts a
  path that exists and is not on the stack onto the stack.
\<close>

lemma read_text_dom: "read_text fs p = Inr content \<Longrightarrow> p \<in> fst ` set fs"
  by (force simp: read_text_def split: option.splits node.splits dest!: map_of_SomeD)

lemma card_stack_less:
  assumes "p \<in> fst ` set fs" and "p \<notin> set stack"
  shows "card (fst ` set fs - set (stack @ [p])) < card (fst ` set fs - set stack)"
proof (rule psubset_card_mono)
  show "finite (fst ` set fs - set stack)" by simp
  show "fst ` set fs - set (stack @ [p]) \<subset> fst ` set fs - set stack"
    using assms by auto
qed

function run_template ::
    "nat \<Rightarrow> path \<Rightarrow> filesystem \<Rightarrow> dict \<Rightarrow> path list \<Rightarrow> path \<Rightarrow> event list \<times> (error + string)"
  and run_include_sub ::
    "nat \<Rightarrow> path \<Rightarrow> filesystem \<Rightarrow> dict \<Rightarrow> path list \<Rightarrow> path \<Rightarrow> token list
       \<Rightarrow> event list \<times> (error + string)"
where
  "run_template max_depth tdir fs ctx stack path =
     (if path \<in> set stack then
        ([Call stack path],
         (case relative_strs tdir (stack @ [path]) of
            Inl e \<Rightarrow> Inl e
          | Inr chain \<Rightarrow>
              Inl (RuntimeError (''Template include cycle detected: '' @ join_str '' -> '' chain))))
      else
        (case read_text fs path of
           Inl e \<Rightarrow> ([Call stack path, Read path], Inl e)
         | Inr content \<Rightarrow>
             (case run_include_sub max_depth tdir fs ctx stack path (tokens INCLUDE_RE content) of
                (evs, Inl e) \<Rightarrow> (Call stack path # Read path # evs, Inl e)
              | (evs, Inr expanded) \<Rightarrow>
                  (Call stack path # Read path # evs,
                   var_sub ctx path (tokens VAR_RE expanded)))))"
| "run_include_sub max_depth tdir fs ctx stack path [] = ([], Inr [])"
| "run_include_sub max_depth tdir fs ctx stack path (Lit c # ts) =
     (case run_include_sub max_depth tdir fs ctx stack path ts of
        (evs, Inl e) \<Rightarrow> (evs, Inl e)
      | (evs, Inr r) \<Rightarrow> (evs, Inr (c # r)))"
| "run_include_sub max_depth tdir fs ctx stack path (Hit w include_rel # ts) =
     (case path_exists fs (joinpath tdir include_rel) of
        Inl e \<Rightarrow> ([], Inl e)
      | Inr found \<Rightarrow>
          (if \<not> found then
             ([], Inl (FileNotFoundError
                        (''Missing included template: '' @ str_path (joinpath tdir include_rel))))
           else if max_depth \<le> length stack then ([], Inl RecursionError)
           else
             (case run_template max_depth tdir fs ctx (stack @ [path]) (joinpath tdir include_rel) of
                (evs, Inl e) \<Rightarrow> (evs, Inl e)
              | (evs, Inr r) \<Rightarrow>
                  (case run_include_sub max_depth tdir fs ctx stack path ts of
                     (evs', Inl e) \<Rightarrow> (evs @ evs', Inl e)
                   | (evs', Inr rs) \<Rightarrow> (evs @ evs', Inr (r @ rs))))))"
  by pat_completeness auto
termination
proof (relation "inv_image (less_than <*lex*> less_than)
    (\<lambda>x. case x of
       Inl (max_depth, tdir, fs, ctx, stack, path) \<Rightarrow> (card (fst ` set fs - set stack), 0)
     | Inr (max_depth, tdir, fs, ctx, stack, path, ts) \<Rightarrow>
         (card (fst ` set fs - set (stack @ [path])), Suc (length ts)))", goal_cases)
  case 1
  show ?case by (intro wf_inv_image wf_lex_prod wf_less_than)
next
  case (2 max_depth tdir fs ctx stack path content)
  then have "card (fst ` set fs - set (stack @ [path])) < card (fst ` set fs - set stack)"
    by (intro card_stack_less read_text_dom)
  then show ?case by (simp del: set_append)
next
  case 3
  show ?case by simp
next
  case 4
  show ?case by simp
next
  case 5
  show ?case by simp
qed

declare run_template.simps [simp del]

text \<open>What a call returns or raises, and its events.\<close>

definition render_template ::
    "nat \<Rightarrow> path \<Rightarrow> filesystem \<Rightarrow> dict \<Rightarrow> path list \<Rightarrow> path \<Rightarrow> error + string" where
  "render_template max_depth tdir fs ctx stack path =
     snd (run_template max_depth tdir fs ctx stack path)"

definition include_sub ::
    "nat \<Rightarrow> path \<Rightarrow> filesystem \<Rightarrow> dict \<Rightarrow> path list \<Rightarrow> path \<Rightarrow> token list \<Rightarrow> error + string" where
  "include_sub max_depth tdir fs ctx stack path ts =
     snd (run_include_sub max_depth tdir fs ctx stack path ts)"

definition events :: "nat \<Rightarrow> path \<Rightarrow> filesystem \<Rightarrow> dict \<Rightarrow> path list \<Rightarrow> path \<Rightarrow> event list" where
  "events max_depth tdir fs ctx stack path =
     fst (run_template max_depth tdir fs ctx stack path)"

definition include_events ::
    "nat \<Rightarrow> path \<Rightarrow> filesystem \<Rightarrow> dict \<Rightarrow> path list \<Rightarrow> path \<Rightarrow> token list \<Rightarrow> event list" where
  "include_events max_depth tdir fs ctx stack path ts =
     fst (run_include_sub max_depth tdir fs ctx stack path ts)"


lemma run_pair:
  "run_template max_depth tdir fs ctx stack path =
     (events max_depth tdir fs ctx stack path, render_template max_depth tdir fs ctx stack path)"
  "run_include_sub max_depth tdir fs ctx stack path ts =
     (include_events max_depth tdir fs ctx stack path ts,
      include_sub max_depth tdir fs ctx stack path ts)"
  by (simp_all add: events_def render_template_def include_events_def include_sub_def)

text \<open>The equations of the source for what a call returns.\<close>

lemma render_template_simps:
  "render_template max_depth tdir fs ctx stack path =
     (if path \<in> set stack then
        (case relative_strs tdir (stack @ [path]) of
           Inl e \<Rightarrow> Inl e
         | Inr chain \<Rightarrow>
             Inl (RuntimeError (''Template include cycle detected: '' @ join_str '' -> '' chain)))
      else
        (case read_text fs path of
           Inl e \<Rightarrow> Inl e
         | Inr content \<Rightarrow>
             (case include_sub max_depth tdir fs ctx stack path (tokens INCLUDE_RE content) of
                Inl e \<Rightarrow> Inl e
              | Inr expanded \<Rightarrow> var_sub ctx path (tokens VAR_RE expanded))))"
  unfolding render_template_def include_sub_def
  by (subst run_template.simps) (simp split: sum.splits prod.splits)

lemma include_sub_simps [simp]:
  "include_sub max_depth tdir fs ctx stack path [] = Inr []"
  "include_sub max_depth tdir fs ctx stack path (Lit c # ts) =
     (case include_sub max_depth tdir fs ctx stack path ts of
        Inl e \<Rightarrow> Inl e
      | Inr r \<Rightarrow> Inr (c # r))"
  "include_sub max_depth tdir fs ctx stack path (Hit w include_rel # ts) =
     (case path_exists fs (joinpath tdir include_rel) of
        Inl e \<Rightarrow> Inl e
      | Inr found \<Rightarrow>
          (if \<not> found then
             Inl (FileNotFoundError
                   (''Missing included template: '' @ str_path (joinpath tdir include_rel)))
           else if max_depth \<le> length stack then Inl RecursionError
           else
             (case render_template max_depth tdir fs ctx (stack @ [path])
                     (joinpath tdir include_rel) of
                Inl e \<Rightarrow> Inl e
              | Inr r \<Rightarrow>
                  (case include_sub max_depth tdir fs ctx stack path ts of
                     Inl e \<Rightarrow> Inl e
                   | Inr rs \<Rightarrow> Inr (r @ rs)))))"
  unfolding render_template_def include_sub_def
  by (simp_all split: sum.splits prod.splits)

text \<open>The same for the events of a call.\<close>

lemma events_simps:
  "events max_depth tdir fs ctx stack path =
     (if path \<in> set stack then [Call stack path]
      else
        (case read_text fs path of
           Inl e \<Rightarrow> [Call stack path, Read path]
         | Inr content \<Rightarrow>
             Call stack path # Read path
               # include_events max_depth tdir fs ctx stack path (tokens INCLUDE_RE content)))"
  unfolding events_def include_events_def
  by (subst run_template.simps) (simp split: sum.splits prod.splits)

lemma include_events_simps [simp]:
  "include_events max_depth tdir fs ctx stack path [] = []"
  "include_events max_depth tdir fs ctx stack path (Lit c # ts) =
     include_events max_depth tdir fs ctx stack path ts"
  "include_events max_depth tdir fs ctx stack path (Hit w include_rel # ts) =
     (case path_exists fs (joinpath tdir include_rel) of
        Inl e \<Rightarrow> []
      | Inr found \<Rightarrow>
          (if \<not> found then []
           else if max_depth \<le> length stack then []
           else
             events max_depth tdir fs ctx (stack @ [path]) (joinpath tdir include_rel)
             @ (case render_template max_depth tdir fs ctx (stack @ [path])
                       (joinpath tdir include_rel) of
                  Inl e \<Rightarrow> []
                | Inr r \<Rightarrow> include_events max_depth tdir fs ctx stack path ts)))"
  unfolding events_def include_events_def render_template_def
  by (simp_all split: sum.splits prod.splits)

section \<open>The page builder\<close>

definition current_attrs :: "string \<Rightarrow> string \<Rightarrow> string \<times> string" where
  "current_attrs current name =
     (if name = current
      then ('' aria-current='' @ [CHR 0x22] @ ''page'' @ [CHR 0x22], '' w--current'')
      else ([], []))"

definition page_context :: "string \<Rightarrow> string \<Rightarrow> string \<Rightarrow> string \<Rightarrow> dict" where
  "page_context asset_prefix page_title page_description current =
     (case current_attrs current ''home'' of (nav_brand_aria, nav_brand_current_class) \<Rightarrow>
      case current_attrs current ''home'' of (nav_home_aria, nav_home_current_class) \<Rightarrow>
      case current_attrs current ''motorists'' of (nav_motorists_aria, nav_motorists_current_class) \<Rightarrow>
      case current_attrs current ''law'' of (nav_law_aria, nav_law_current_class) \<Rightarrow>
      case current_attrs current ''home'' of (footer_brand_aria, footer_brand_current_class) \<Rightarrow>
      case current_attrs current ''home'' of (footer_home_aria, footer_home_current_class) \<Rightarrow>
      case current_attrs current ''motorists'' of (footer_motorists_aria, footer_motorists_current_class) \<Rightarrow>
      case current_attrs current ''law'' of (footer_law_aria, footer_law_current_class) \<Rightarrow>
      map_of
        [(''asset_prefix'', asset_prefix),
         (''page_title'', page_title),
         (''page_description'', page_description),
         (''page_og_title'', page_title),
         (''page_og_description'', page_description),
         (''page_twitter_title'', page_title),
         (''page_twitter_description'', page_description),
         (''nav_brand_aria'', nav_brand_aria),
         (''nav_brand_current_class'', nav_brand_current_class),
         (''nav_home_aria'', nav_home_aria),
         (''nav_home_current_class'', nav_home_current_class),
         (''nav_motorists_aria'', nav_motorists_aria),
         (''nav_motorists_current_class'', nav_motorists_current_class),
         (''nav_law_aria'', nav_law_aria),
         (''nav_law_current_class'', nav_law_current_class),
         (''footer_brand_aria'', footer_brand_aria),
         (''footer_brand_current_class'', footer_brand_current_class),
         (''footer_home_aria'', footer_home_aria),
         (''footer_home_current_class'', footer_home_current_class),
         (''footer_motorists_aria'', footer_motorists_aria),
         (''footer_motorists_current_class'', footer_motorists_current_class),
         (''footer_law_aria'', footer_law_aria),
         (''footer_law_current_class'', footer_law_current_class)])"

text \<open>\<^verbatim>\<open>str.rstrip()\<close>: the trailing whitespace is removed.\<close>

definition rstrip :: "string \<Rightarrow> string" where
  "rstrip s = rev (dropWhile is_space (rev s))"

text \<open>
  \<^verbatim>\<open>ROOT_DIR\<close> is where the script is installed; it is a parameter. \<^verbatim>\<open>TEMPLATES_DIR\<close> is
  the directory \<^verbatim>\<open>templates\<close> below it.
\<close>

definition templates_dir :: "path \<Rightarrow> path" where
  "templates_dir root_dir = joinpath root_dir ''templates''"

text \<open>An entry of \<^verbatim>\<open>pages\<close>: the values under its keys template, output and context.\<close>

record page =
  template :: path
  output_path :: path
  page_ctx :: dict

definition pages :: "path \<Rightarrow> page list" where
  "pages root_dir =
     [\<lparr>template = joinpath (templates_dir root_dir) ''pages/home.html'',
       output_path = joinpath root_dir ''index.html'',
       page_ctx = page_context []
         ''Traafik - Traffic Stops Reimagined''
         (''Traafik'' @ [CHR 0x27] @ ''s patented enterprise software represents a game-changing leap ''
          @ ''forward in technology, with unprecedented digital interaction between ''
          @ ''Motorists and Law Enforcement.'')
         ''home''\<rparr>,
      \<lparr>template = joinpath (templates_dir root_dir) ''pages/motorists.html'',
       output_path = joinpath root_dir ''motorists/index.html'',
       page_ctx = page_context ''../''
         ''Traafik - Motorist''
         (''Police agencies need a better approach to ensuring the safety of ''
          @ ''citizens during routine traffic stops. Digital interaction.'')
         ''motorists''\<rparr>,
      \<lparr>template = joinpath (templates_dir root_dir) ''pages/law_enforcement.html'',
       output_path = joinpath root_dir ''law-enforcement/index.html'',
       page_ctx = page_context ''../''
         ''Traafik - Law Enforcement''
         ''Smarter Technology for Law Enforcement''
         ''law''\<rparr>]"

text \<open>
  What the program changes: the files, and the lines it prints. An exception ends the
  run; what was written before it stays.
\<close>

record world =
  files :: filesystem
  stdout :: "string list"

text \<open>The body of the loop of \<^verbatim>\<open>main\<close>, for one page.\<close>

definition build_page :: "nat \<Rightarrow> path \<Rightarrow> page \<Rightarrow> world \<Rightarrow> error option \<times> world" where
  "build_page max_depth root_dir pg w =
     (case render_template max_depth (templates_dir root_dir) (files w) (page_ctx pg) [] (template pg) of
        Inl e \<Rightarrow> (Some e, w)
      | Inr r \<Rightarrow>
          (case write_text (files w) (output_path pg) (rstrip r @ [CHR 0x0A]) of
             Inl e \<Rightarrow> (Some e, w)
           | Inr fs' \<Rightarrow>
               (case relative_to (output_path pg) root_dir of
                  Inl e \<Rightarrow> (Some e, w\<lparr>files := fs'\<rparr>)
                | Inr rel_out \<Rightarrow>
                    (case relative_to (template pg) root_dir of
                       Inl e \<Rightarrow> (Some e, w\<lparr>files := fs'\<rparr>)
                     | Inr rel_tpl \<Rightarrow>
                         (None, w\<lparr>files := fs',
                                  stdout := stdout w @ [''Rendered '' @ str_path rel_out
                                                        @ '' from '' @ str_path rel_tpl]\<rparr>)))))"

fun main_loop :: "nat \<Rightarrow> path \<Rightarrow> page list \<Rightarrow> world \<Rightarrow> error option \<times> world" where
  "main_loop max_depth root_dir [] w = (None, w)"
| "main_loop max_depth root_dir (pg # rest) w =
     (case build_page max_depth root_dir pg w of
        (Some e, w') \<Rightarrow> (Some e, w')
      | (None, w') \<Rightarrow> main_loop max_depth root_dir rest w')"

definition main :: "nat \<Rightarrow> path \<Rightarrow> world \<Rightarrow> error option \<times> world" where
  "main max_depth root_dir w = main_loop max_depth root_dir (pages root_dir) w"



section \<open>Facts about the scan and the two substitutions\<close>

lemma raw_tokens: "raw (tokens pat s) = s"
proof (induction pat s rule: tokens.induct)
  case (1 pat)
  show ?case by simp
next
  case (2 pat c cs)
  show ?case
  proof (cases "match_at pat (c # cs)")
    case None
    with 2 show ?thesis by simp
  next
    case (Some a)
    obtain g rest where a: "a = (g, rest)" by (cases a)
    from Some a obtain m where m: "c # cs = ''{{'' @ m @ rest"
      using match_at_split by blast
    have "take (length (c # cs) - length rest) (c # cs) @ rest = c # cs"
      by (subst (1 2 3) m) simp
    with 2 Some a show ?thesis by simp
  qed
qed

lemma groups_Nil_Lits: "groups ts = [] \<Longrightarrow> ts = map Lit (raw ts)"
  by (induction ts rule: groups.induct) auto

lemma tokens_no_hits: "groups (tokens pat s) = [] \<Longrightarrow> tokens pat s = map Lit s"
  using groups_Nil_Lits [of "tokens pat s"] by (simp add: raw_tokens)

lemma include_sub_Lits: "include_sub max_depth tdir fs ctx stack path (map Lit cs) = Inr cs"
  by (induction cs) simp_all

lemma include_sub_append:
  "include_sub max_depth tdir fs ctx stack path (xs @ ys) =
     (case include_sub max_depth tdir fs ctx stack path xs of
        Inl e \<Rightarrow> Inl e
      | Inr a \<Rightarrow> (case include_sub max_depth tdir fs ctx stack path ys of
                   Inl e \<Rightarrow> Inl e
                 | Inr b \<Rightarrow> Inr (a @ b)))"
  by (induction xs rule: groups.induct) (auto split: sum.splits)

lemma var_sub_append:
  "var_sub ctx path (xs @ ys) =
     (case var_sub ctx path xs of
        Inl e \<Rightarrow> Inl e
      | Inr a \<Rightarrow> (case var_sub ctx path ys of
                   Inl e \<Rightarrow> Inl e
                 | Inr b \<Rightarrow> Inr (a @ b)))"
  by (induction xs rule: groups.induct) (auto split: sum.splits option.splits)

lemma var_sub_present:
  "set (groups ts) \<subseteq> dom ctx \<Longrightarrow>
   var_sub ctx path ts = Inr (concat (map (\<lambda>t. case t of Lit c \<Rightarrow> [c] | Hit w key \<Rightarrow> the (ctx key)) ts))"
  by (induction ts rule: groups.induct) (auto split: sum.splits option.splits)


lemma var_sub_first_missing:
  "\<not> set (groups ts) \<subseteq> dom ctx \<Longrightarrow>
   \<exists>key. find (\<lambda>k. ctx k = None) (groups ts) = Some key
     \<and> var_sub ctx path ts =
         Inl (KeyError (''Missing template variable '' @ [CHR 0x27] @ key @ [CHR 0x27]
                        @ '' for '' @ str_path path))"
proof (induction ts rule: groups.induct)
  case 1
  then show ?case by simp
next
  case (2 c ts)
  then obtain key where "find (\<lambda>k. ctx k = None) (groups ts) = Some key"
    and "var_sub ctx path ts =
         Inl (KeyError (''Missing template variable '' @ [CHR 0x27] @ key @ [CHR 0x27]
                        @ '' for '' @ str_path path))"
    by auto
  then show ?case by (intro exI [of _ key]) simp
next
  case (3 w g ts)
  show ?case
  proof (cases "ctx g")
    case None
    then show ?thesis by (intro exI [of _ g]) simp
  next
    case (Some v)
    with 3 obtain key where "find (\<lambda>k. ctx k = None) (groups ts) = Some key"
      and "var_sub ctx path ts =
         Inl (KeyError (''Missing template variable '' @ [CHR 0x27] @ key @ [CHR 0x27]
                        @ '' for '' @ str_path path))"
      by auto
    with Some show ?thesis by (intro exI [of _ key]) simp
  qed
qed

lemmas scan_defs = match_at_def lit_def spaces_def group1_def is_word_char_def
  is_path_char_def is_space_def

lemmas path_defs = joinpath_def parse_path_def splitroot_def str_path_def relative_to_def
  templates_dir_def

lemmas file_defs = read_text_def write_text_def path_exists_def parent_def

section \<open>Missing variables\<close>

text \<open>
  C3. When the include directives of a template have been expanded and the expanded text
  has a placeholder whose key the context lacks, the call raises \<^verbatim>\<open>KeyError\<close>. The
  message names the first such key of the expanded text, between single quotes, and the
  path of the template being rendered.
\<close>

theorem render_missing_variable:
  assumes "path \<notin> set stack"
    and "read_text fs path = Inr content"
    and "include_sub max_depth tdir fs ctx stack path (tokens INCLUDE_RE content) = Inr expanded"
    and "\<not> set (groups (tokens VAR_RE expanded)) \<subseteq> dom ctx"
  shows "\<exists>key. find (\<lambda>k. ctx k = None) (groups (tokens VAR_RE expanded)) = Some key
           \<and> render_template max_depth tdir fs ctx stack path =
               Inl (KeyError (''Missing template variable '' @ [CHR 0x27] @ key @ [CHR 0x27]
                              @ '' for '' @ str_path path))"
proof -
  from assms(1-3)
  have "render_template max_depth tdir fs ctx stack path = var_sub ctx path (tokens VAR_RE expanded)"
    by (simp add: render_template_simps)
  with var_sub_first_missing [OF assms(4), of path] show ?thesis by simp
qed

text \<open>A template with a second placeholder, \<^verbatim>\<open>zz\<close>, that the context lacks.\<close>

theorem render_missing_variable_witness:
  "Path ''/'' [''srv'', ''templates'', ''page.html''] \<notin> set []
   \<and> read_text [(Path ''/'' [''srv'', ''templates'', ''page.html''], File ''Hi {{name}}, {{ zz }}'')]
         (Path ''/'' [''srv'', ''templates'', ''page.html'']) = Inr ''Hi {{name}}, {{ zz }}''
   \<and> include_sub 100 (Path ''/'' [''srv'', ''templates''])
         [(Path ''/'' [''srv'', ''templates'', ''page.html''], File ''Hi {{name}}, {{ zz }}'')]
         [''name'' \<mapsto> ''World''] [] (Path ''/'' [''srv'', ''templates'', ''page.html''])
         (tokens INCLUDE_RE ''Hi {{name}}, {{ zz }}'') = Inr ''Hi {{name}}, {{ zz }}''
   \<and> \<not> set (groups (tokens VAR_RE ''Hi {{name}}, {{ zz }}'')) \<subseteq> dom [''name'' \<mapsto> ''World'']
   \<and> render_template 100 (Path ''/'' [''srv'', ''templates''])
         [(Path ''/'' [''srv'', ''templates'', ''page.html''], File ''Hi {{name}}, {{ zz }}'')]
         [''name'' \<mapsto> ''World''] [] (Path ''/'' [''srv'', ''templates'', ''page.html''])
       = Inl (KeyError (''Missing template variable '' @ [CHR 0x27] @ ''zz'' @ [CHR 0x27]
                        @ '' for /srv/templates/page.html''))"
proof -
  let ?p = "Path ''/'' [''srv'', ''templates'', ''page.html'']"
  let ?t = "Path ''/'' [''srv'', ''templates'']"
  let ?fs = "[(?p, File ''Hi {{name}}, {{ zz }}'')]"
  let ?ctx = "[''name'' \<mapsto> ''World'']"
  have h1: "?p \<notin> set []" by simp
  have h2: "read_text ?fs ?p = Inr ''Hi {{name}}, {{ zz }}''" by (simp add: file_defs)
  have h3: "include_sub 100 ?t ?fs ?ctx [] ?p (tokens INCLUDE_RE ''Hi {{name}}, {{ zz }}'')
              = Inr ''Hi {{name}}, {{ zz }}''"
    by (simp add: scan_defs)
  have h4: "\<not> set (groups (tokens VAR_RE ''Hi {{name}}, {{ zz }}'')) \<subseteq> dom ?ctx"
    by (simp add: scan_defs)
  have "render_template 100 ?t ?fs ?ctx [] ?p
          = Inl (KeyError (''Missing template variable '' @ [CHR 0x27] @ ''zz'' @ [CHR 0x27]
                           @ '' for /srv/templates/page.html''))"
    using render_missing_variable [OF h1 h2 h3 h4]
    by (simp add: scan_defs path_defs)
  with h1 h2 h3 h4 show ?thesis by blast
qed

section \<open>Substitution is a single pass\<close>

text \<open>
  C10. In a template without include directives, the value of a placeholder is copied
  into the result as it is, between the results of the tokens before and after the
  placeholder; the value is not scanned, so a placeholder written in the value stays.
\<close>

theorem var_values_copied_literally:
  assumes "path \<notin> set stack"
    and "read_text fs path = Inr content"
    and "groups (tokens INCLUDE_RE content) = []"
    and "tokens VAR_RE content = pre @ Hit w key # post"
    and "ctx key = Some v"
    and "var_sub ctx path pre = Inr a"
    and "var_sub ctx path post = Inr b"
  shows "render_template max_depth tdir fs ctx stack path = Inr (a @ v @ b)"
proof -
  have "include_sub max_depth tdir fs ctx stack path (tokens INCLUDE_RE content) = Inr content"
    by (simp add: tokens_no_hits [OF assms(3)] include_sub_Lits)
  with assms(1,2)
  have "render_template max_depth tdir fs ctx stack path = var_sub ctx path (tokens VAR_RE content)"
    by (simp add: render_template_simps)
  also have "\<dots> = Inr (a @ v @ b)"
    using assms(5-7) by (simp add: assms(4) var_sub_append)
  finally show ?thesis .
qed

text \<open>
  The value of \<^verbatim>\<open>a\<close> is the text of a placeholder for \<^verbatim>\<open>other\<close>, which the context
  also has; the result keeps \<^verbatim>\<open>{{other}}\<close>.
\<close>

theorem var_values_copied_literally_witness:
  "Path ''/'' [''srv'', ''templates'', ''page.html''] \<notin> set []
   \<and> read_text [(Path ''/'' [''srv'', ''templates'', ''page.html''], File ''<{{a}}>'')]
         (Path ''/'' [''srv'', ''templates'', ''page.html'']) = Inr ''<{{a}}>''
   \<and> groups (tokens INCLUDE_RE ''<{{a}}>'') = []
   \<and> tokens VAR_RE ''<{{a}}>'' = [Lit CHR ''<''] @ Hit ''{{a}}'' ''a'' # [Lit CHR ''>'']
   \<and> [''a'' \<mapsto> ''{{other}}'', ''other'' \<mapsto> ''X''] ''a'' = Some ''{{other}}''
   \<and> groups (tokens VAR_RE ''{{other}}'') = [''other'']
   \<and> render_template 100 (Path ''/'' [''srv'', ''templates''])
         [(Path ''/'' [''srv'', ''templates'', ''page.html''], File ''<{{a}}>'')]
         [''a'' \<mapsto> ''{{other}}'', ''other'' \<mapsto> ''X''] []
         (Path ''/'' [''srv'', ''templates'', ''page.html''])
       = Inr ''<{{other}}>''"
proof -
  let ?p = "Path ''/'' [''srv'', ''templates'', ''page.html'']"
  let ?t = "Path ''/'' [''srv'', ''templates'']"
  let ?fs = "[(?p, File ''<{{a}}>'')]"
  let ?ctx = "[''a'' \<mapsto> ''{{other}}'', ''other'' \<mapsto> ''X'']"
  have h1: "?p \<notin> set []" by simp
  have h2: "read_text ?fs ?p = Inr ''<{{a}}>''" by (simp add: file_defs)
  have h3: "groups (tokens INCLUDE_RE ''<{{a}}>'') = []" by (simp add: scan_defs)
  have h4: "tokens VAR_RE ''<{{a}}>'' = [Lit CHR ''<''] @ Hit ''{{a}}'' ''a'' # [Lit CHR ''>'']"
    by (simp add: scan_defs)
  have h5: "?ctx ''a'' = Some ''{{other}}''" by simp
  have h6: "var_sub ?ctx ?p [Lit CHR ''<''] = Inr ''<''" by simp
  have h7: "var_sub ?ctx ?p [Lit CHR ''>''] = Inr ''>''" by simp
  have h8: "groups (tokens VAR_RE ''{{other}}'') = [''other'']" by (simp add: scan_defs)
  have "render_template 100 ?t ?fs ?ctx [] ?p = Inr ''<{{other}}>''"
    using var_values_copied_literally [OF h1 h2 h3 h4 h5 h6 h7, of 100 ?t] by simp
  with h1 h2 h3 h4 h5 h8 show ?thesis by blast
qed

section \<open>Include cycles\<close>

lemma relative_strs_below:
  "\<forall>p \<in> set ps. proot p = proot tdir \<and> prefix (ptail tdir) (ptail p) \<Longrightarrow>
   relative_strs tdir ps =
     Inr (map (\<lambda>p. str_path (Path [] (drop (length (ptail tdir)) (ptail p)))) ps)"
  by (induction ps) (simp_all add: relative_to_def)

lemma relative_strs_Inl:
  "relative_strs tdir ps = Inl e \<Longrightarrow> \<exists>p \<in> set ps. e = ValueError p tdir"
  by (induction ps arbitrary: e) (auto simp: relative_to_def split: if_splits sum.splits)

text \<open>
  A call whose path is on its stack, all paths below the template directory: the call
  raises \<^verbatim>\<open>RuntimeError\<close>, and the message lists the stack and then the path, each
  relative to the template directory, joined by an arrow.
\<close>

lemma render_cycle_chain:
  assumes "path \<in> set stack"
    and "\<forall>p \<in> set stack. proot p = proot tdir \<and> prefix (ptail tdir) (ptail p)"
  shows "render_template max_depth tdir fs ctx stack path =
           Inl (RuntimeError (''Template include cycle detected: '' @ join_str '' -> ''
             (map (\<lambda>p. str_path (Path [] (drop (length (ptail tdir)) (ptail p))))
                  (stack @ [path]))))"
proof -
  from assms have "\<forall>p \<in> set (stack @ [path]). proot p = proot tdir \<and> prefix (ptail tdir) (ptail p)"
    by auto
  from relative_strs_below [OF this] assms(1) show ?thesis
    by (simp add: render_template_simps)
qed

text \<open>The two examples of the specification, from a call with an empty stack.\<close>

lemma self_inclusion_chain:
  "render_template 100 (Path ''/'' [''srv'', ''templates''])
     [(Path ''/'' [''srv'', ''templates'', ''a.html''], File ''<{{include: a.html}}>'')]
     ctx [] (Path ''/'' [''srv'', ''templates'', ''a.html''])
   = Inl (RuntimeError ''Template include cycle detected: a.html -> a.html'')"
proof -
  let ?t = "Path ''/'' [''srv'', ''templates'']"
  let ?a = "Path ''/'' [''srv'', ''templates'', ''a.html'']"
  have "render_template 100 ?t [(?a, File ''<{{include: a.html}}>'')] ctx [?a] ?a
        = Inl (RuntimeError ''Template include cycle detected: a.html -> a.html'')"
    by (subst render_cycle_chain) (simp_all add: path_defs)
  then show ?thesis
    by (simp add: render_template_simps [of _ _ _ _ "[]"] scan_defs path_defs file_defs)
qed

lemma transitive_inclusion_chain:
  "render_template 100 (Path ''/'' [''srv'', ''templates''])
     [(Path ''/'' [''srv'', ''templates'', ''a.html''], File ''<{{include: b.html}}>''),
      (Path ''/'' [''srv'', ''templates'', ''b.html''], File ''[{{ include: a.html }}]'')]
     ctx [] (Path ''/'' [''srv'', ''templates'', ''a.html''])
   = Inl (RuntimeError ''Template include cycle detected: a.html -> b.html -> a.html'')"
proof -
  let ?t = "Path ''/'' [''srv'', ''templates'']"
  let ?a = "Path ''/'' [''srv'', ''templates'', ''a.html'']"
  let ?b = "Path ''/'' [''srv'', ''templates'', ''b.html'']"
  let ?fs = "[(?a, File ''<{{include: b.html}}>''), (?b, File ''[{{ include: a.html }}]'')]"
  have "render_template 100 ?t ?fs ctx [?a, ?b] ?a
        = Inl (RuntimeError ''Template include cycle detected: a.html -> b.html -> a.html'')"
    by (subst render_cycle_chain) (simp_all add: path_defs)
  then have "render_template 100 ?t ?fs ctx [?a] ?b
        = Inl (RuntimeError ''Template include cycle detected: a.html -> b.html -> a.html'')"
    by (simp add: render_template_simps [of _ _ _ _ "[?a]"] scan_defs path_defs file_defs)
  then show ?thesis
    by (simp add: render_template_simps [of _ _ _ _ "[]"] scan_defs path_defs file_defs)
qed

text \<open>
  C1. A call whose path is already on its stack is to raise the cycle error, with the
  chain of the paths from the outermost one to the repeated one in its message. For
  paths below the template directory the code does so (\<open>render_cycle_chain\<close> and the two
  examples above). It does not for a path outside that directory: the chain is built with
  \<^verbatim>\<open>relative_to(TEMPLATES_DIR)\<close>, which raises \<^verbatim>\<open>ValueError\<close> for such a path, and an
  include directive can name one, since a relative path that starts with a slash replaces
  the template directory when it is joined to it. Here \<^verbatim>\<open>a.html\<close> includes
  \<^verbatim>\<open>/srv/shared/b.html\<close>, which includes itself: the path is on the stack of the third
  call, and the whole render ends with \<^verbatim>\<open>ValueError\<close>, not with the cycle error and its
  chain.
\<close>

theorem cycle_outside_template_dir:
  "Path ''/'' [''srv'', ''shared'', ''b.html'']
     \<in> set [Path ''/'' [''srv'', ''templates'', ''a.html''], Path ''/'' [''srv'', ''shared'', ''b.html'']]
   \<and> joinpath (Path ''/'' [''srv'', ''templates'']) ''/srv/shared/b.html''
       = Path ''/'' [''srv'', ''shared'', ''b.html'']
   \<and> render_template 100 (Path ''/'' [''srv'', ''templates''])
         [(Path ''/'' [''srv'', ''templates'', ''a.html''], File ''{{include: /srv/shared/b.html}}''),
          (Path ''/'' [''srv'', ''shared'', ''b.html''], File ''{{include: /srv/shared/b.html}}'')]
         Map.empty
         [Path ''/'' [''srv'', ''templates'', ''a.html''], Path ''/'' [''srv'', ''shared'', ''b.html'']]
         (Path ''/'' [''srv'', ''shared'', ''b.html''])
       = Inl (ValueError (Path ''/'' [''srv'', ''shared'', ''b.html''])
                         (Path ''/'' [''srv'', ''templates'']))
   \<and> render_template 100 (Path ''/'' [''srv'', ''templates''])
         [(Path ''/'' [''srv'', ''templates'', ''a.html''], File ''{{include: /srv/shared/b.html}}''),
          (Path ''/'' [''srv'', ''shared'', ''b.html''], File ''{{include: /srv/shared/b.html}}'')]
         Map.empty [] (Path ''/'' [''srv'', ''templates'', ''a.html''])
       = Inl (ValueError (Path ''/'' [''srv'', ''shared'', ''b.html''])
                         (Path ''/'' [''srv'', ''templates'']))"
  by (simp add: scan_defs path_defs file_defs render_template_simps)

section \<open>The navigation entries of a page context\<close>

text \<open>Every navigation entry is one of the two components of \<open>current_attrs\<close>.\<close>

lemma page_context_nav:
  "page_context a t d cur ''nav_brand_aria'' = Some (fst (current_attrs cur ''home''))"
  "page_context a t d cur ''nav_brand_current_class'' = Some (snd (current_attrs cur ''home''))"
  "page_context a t d cur ''nav_home_aria'' = Some (fst (current_attrs cur ''home''))"
  "page_context a t d cur ''nav_home_current_class'' = Some (snd (current_attrs cur ''home''))"
  "page_context a t d cur ''nav_motorists_aria'' = Some (fst (current_attrs cur ''motorists''))"
  "page_context a t d cur ''nav_motorists_current_class'' = Some (snd (current_attrs cur ''motorists''))"
  "page_context a t d cur ''nav_law_aria'' = Some (fst (current_attrs cur ''law''))"
  "page_context a t d cur ''nav_law_current_class'' = Some (snd (current_attrs cur ''law''))"
  by (simp_all add: page_context_def split: prod.splits)

lemma page_context_footer:
  "page_context a t d cur ''footer_brand_aria'' = Some (fst (current_attrs cur ''home''))"
  "page_context a t d cur ''footer_brand_current_class'' = Some (snd (current_attrs cur ''home''))"
  "page_context a t d cur ''footer_home_aria'' = Some (fst (current_attrs cur ''home''))"
  "page_context a t d cur ''footer_home_current_class'' = Some (snd (current_attrs cur ''home''))"
  "page_context a t d cur ''footer_motorists_aria'' = Some (fst (current_attrs cur ''motorists''))"
  "page_context a t d cur ''footer_motorists_current_class'' = Some (snd (current_attrs cur ''motorists''))"
  "page_context a t d cur ''footer_law_aria'' = Some (fst (current_attrs cur ''law''))"
  "page_context a t d cur ''footer_law_current_class'' = Some (snd (current_attrs cur ''law''))"
  by (simp_all add: page_context_def split: prod.splits)

text \<open>
  C6, as stated, fails for the brand entries: they are computed for the identifier
  \<^verbatim>\<open>home\<close>, not for \<^verbatim>\<open>brand\<close>. On the home page the brand entry is marked although
  \<^verbatim>\<open>brand\<close> is not the current identifier, and a page whose current identifier is
  \<^verbatim>\<open>brand\<close> leaves it empty.
\<close>

theorem nav_item_own_identifier_counterexample:
  "page_context [] [] [] ''home'' ''nav_brand_aria''
     \<noteq> Some (if ''brand'' = ''home'' then '' aria-current='' @ [CHR 0x22] @ ''page'' @ [CHR 0x22] else [])
   \<and> page_context [] [] [] ''home'' ''nav_brand_aria''
     = Some ('' aria-current='' @ [CHR 0x22] @ ''page'' @ [CHR 0x22])
   \<and> page_context [] [] [] ''brand'' ''nav_brand_aria''
     \<noteq> Some (if ''brand'' = ''brand'' then '' aria-current='' @ [CHR 0x22] @ ''page'' @ [CHR 0x22] else [])
   \<and> page_context [] [] [] ''brand'' ''nav_brand_aria'' = Some []"
  by (simp add: page_context_nav current_attrs_def)

text \<open>
  C6, amended. In both regions, the entries of home, motorists and law are the
  \<^verbatim>\<open>aria-current\<close> attribute and the current-class marker exactly when the item's
  identifier is the current identifier of the page, and the entries of brand exactly when
  the current identifier is \<^verbatim>\<open>home\<close>; otherwise both are empty.
\<close>

theorem nav_item_attrs:
  "\<forall>region \<in> {''nav'', ''footer''}. \<forall>item \<in> {''brand'', ''home'', ''motorists'', ''law''}.
     page_context a t d cur (region @ ''_'' @ item @ ''_aria'')
       = Some (if (if item = ''brand'' then ''home'' else item) = cur
               then '' aria-current='' @ [CHR 0x22] @ ''page'' @ [CHR 0x22] else [])
     \<and> page_context a t d cur (region @ ''_'' @ item @ ''_current_class'')
       = Some (if (if item = ''brand'' then ''home'' else item) = cur
               then '' w--current'' else [])"
  using page_context_nav [of a t d cur] page_context_footer [of a t d cur]
  by (simp add: current_attrs_def)

theorem nav_item_attrs_witness:
  "''footer'' \<in> {''nav'', ''footer''} \<and> ''law'' \<in> {''brand'', ''home'', ''motorists'', ''law''}
   \<and> page_context ''../'' ''Traafik - Law Enforcement'' ''Smarter Technology for Law Enforcement''
         ''law'' ''footer_law_aria''
       = Some ('' aria-current='' @ [CHR 0x22] @ ''page'' @ [CHR 0x22])
   \<and> page_context ''../'' ''Traafik - Law Enforcement'' ''Smarter Technology for Law Enforcement''
         ''law'' ''footer_law_current_class''
       = Some '' w--current''"
proof -
  have h1: "''footer'' \<in> {''nav'', ''footer''}" by simp
  have h2: "''law'' \<in> {''brand'', ''home'', ''motorists'', ''law''}" by simp
  from nav_item_attrs [of "''../''" "''Traafik - Law Enforcement''"
      "''Smarter Technology for Law Enforcement''" "''law''", rule_format, OF h1 h2]
  show ?thesis by simp
qed

text \<open>
  C9. The brand entries are the home entries, so brand is marked exactly when the current
  identifier is \<^verbatim>\<open>home\<close>, and every footer entry is the header entry of the same item.
\<close>

theorem brand_mirrors_home_footer_mirrors_nav:
  "page_context a t d cur ''nav_brand_aria'' = page_context a t d cur ''nav_home_aria''
   \<and> page_context a t d cur ''nav_brand_current_class''
       = page_context a t d cur ''nav_home_current_class''
   \<and> page_context a t d cur ''nav_brand_aria''
       = Some (if cur = ''home'' then '' aria-current='' @ [CHR 0x22] @ ''page'' @ [CHR 0x22] else [])
   \<and> page_context a t d cur ''nav_brand_current_class''
       = Some (if cur = ''home'' then '' w--current'' else [])
   \<and> page_context a t d cur ''footer_brand_aria'' = page_context a t d cur ''nav_brand_aria''
   \<and> page_context a t d cur ''footer_brand_current_class''
       = page_context a t d cur ''nav_brand_current_class''
   \<and> page_context a t d cur ''footer_home_aria'' = page_context a t d cur ''nav_home_aria''
   \<and> page_context a t d cur ''footer_home_current_class''
       = page_context a t d cur ''nav_home_current_class''
   \<and> page_context a t d cur ''footer_motorists_aria''
       = page_context a t d cur ''nav_motorists_aria''
   \<and> page_context a t d cur ''footer_motorists_current_class''
       = page_context a t d cur ''nav_motorists_current_class''
   \<and> page_context a t d cur ''footer_law_aria'' = page_context a t d cur ''nav_law_aria''
   \<and> page_context a t d cur ''footer_law_current_class''
       = page_context a t d cur ''nav_law_current_class''"
  by (auto simp add: page_context_nav page_context_footer current_attrs_def)

section \<open>The files the page builder writes\<close>

lemma rstrip_no_trailing_space: "rstrip s = [] \<or> \<not> is_space (last (rstrip s))"
proof (cases "dropWhile is_space (rev s)")
  case Nil
  then show ?thesis by (simp add: rstrip_def)
next
  case (Cons c cs)
  then have "\<not> is_space c" using hd_dropWhile [of is_space "rev s"] by simp
  with Cons show ?thesis by (simp add: rstrip_def)
qed

lemma rstrip_prefix: "\<exists>ws. s = rstrip s @ ws \<and> (\<forall>c \<in> set ws. is_space c)"
proof -
  have "rev s = takeWhile is_space (rev s) @ dropWhile is_space (rev s)" by simp
  then have "s = rev (dropWhile is_space (rev s)) @ rev (takeWhile is_space (rev s))"
    by (metis rev_append rev_rev_ident)
  moreover have "\<forall>c \<in> set (rev (takeWhile is_space (rev s))). is_space c"
    by (auto dest: set_takeWhileD)
  ultimately show ?thesis unfolding rstrip_def by blast
qed

lemma read_text_write_text:
  "write_text fs p content = Inr fs' \<Longrightarrow> read_text fs' p = Inr content"
  by (auto simp: write_text_def read_text_def split: option.splits node.splits)

text \<open>A run of the loop that ends without an error has built every page in turn.\<close>

lemma main_loop_steps:
  "main_loop max_depth root_dir (pg # rest) w = (None, w') \<Longrightarrow>
   \<exists>w1. build_page max_depth root_dir pg w = (None, w1) \<and> main_loop max_depth root_dir rest w1 = (None, w')"
  by (auto split: prod.splits option.splits)

text \<open>
  C7. When the body of the loop ends without an error for a page, the renderer has
  returned a text \<open>r\<close>, and the file at the output path of the page now holds \<open>r\<close> without
  its trailing whitespace, followed by one newline. What was removed from \<open>r\<close> is
  whitespace only, and what is left is empty or ends with a character that is not
  whitespace: the file ends with exactly one newline and has no other trailing
  whitespace.
\<close>

theorem build_page_output:
  assumes "build_page max_depth root_dir pg w = (None, w')"
  shows "\<exists>r ws. render_template max_depth (templates_dir root_dir) (files w) (page_ctx pg) [] (template pg) = Inr r
           \<and> read_text (files w') (output_path pg) = Inr (rstrip r @ [CHR 0x0A])
           \<and> r = rstrip r @ ws \<and> (\<forall>c \<in> set ws. is_space c)
           \<and> (rstrip r = [] \<or> \<not> is_space (last (rstrip r)))"
proof -
  from assms obtain r fs' where r: "render_template max_depth (templates_dir root_dir) (files w) (page_ctx pg) [] (template pg) = Inr r"
    and wr: "write_text (files w) (output_path pg) (rstrip r @ [CHR 0x0A]) = Inr fs'"
    and w': "files w' = fs'"
    by (auto simp: build_page_def split: sum.splits)
  obtain ws where "r = rstrip r @ ws" "\<forall>c \<in> set ws. is_space c"
    using rstrip_prefix by blast
  with r read_text_write_text [OF wr] w' rstrip_no_trailing_space [of r] show ?thesis
    by blast
qed

text \<open>
  A page whose rendered text ends with a space, a newline, a tab and a newline; the
  directory of the output file exists.
\<close>

theorem build_page_output_witness:
  "build_page 100 (Path ''/'' [''srv''])
     \<lparr>template = Path ''/'' [''srv'', ''templates'', ''page.html''],
      output_path = Path ''/'' [''srv'', ''out.html''],
      page_ctx = [''name'' \<mapsto> ''World'']\<rparr>
     \<lparr>files = [(Path ''/'' [''srv''], Directory),
                (Path ''/'' [''srv'', ''templates'', ''page.html''],
                 File (''Hello {{name}}! '' @ [CHR 0x0A, CHR 0x09, CHR 0x0A]))],
      stdout = []\<rparr>
   = (None,
      \<lparr>files = [(Path ''/'' [''srv'', ''out.html''], File (''Hello World!'' @ [CHR 0x0A])),
                (Path ''/'' [''srv''], Directory),
                (Path ''/'' [''srv'', ''templates'', ''page.html''],
                 File (''Hello {{name}}! '' @ [CHR 0x0A, CHR 0x09, CHR 0x0A]))],
       stdout = [''Rendered out.html from templates/page.html'']\<rparr>)
   \<and> render_template 100 (templates_dir (Path ''/'' [''srv'']))
         [(Path ''/'' [''srv''], Directory),
          (Path ''/'' [''srv'', ''templates'', ''page.html''],
           File (''Hello {{name}}! '' @ [CHR 0x0A, CHR 0x09, CHR 0x0A]))]
         [''name'' \<mapsto> ''World''] [] (Path ''/'' [''srv'', ''templates'', ''page.html''])
       = Inr (''Hello World! '' @ [CHR 0x0A, CHR 0x09, CHR 0x0A])
   \<and> read_text
         [(Path ''/'' [''srv'', ''out.html''], File (''Hello World!'' @ [CHR 0x0A])),
          (Path ''/'' [''srv''], Directory),
          (Path ''/'' [''srv'', ''templates'', ''page.html''],
           File (''Hello {{name}}! '' @ [CHR 0x0A, CHR 0x09, CHR 0x0A]))]
         (Path ''/'' [''srv'', ''out.html''])
       = Inr (rstrip (''Hello World! '' @ [CHR 0x0A, CHR 0x09, CHR 0x0A]) @ [CHR 0x0A])
   \<and> rstrip (''Hello World! '' @ [CHR 0x0A, CHR 0x09, CHR 0x0A]) = ''Hello World!''"
proof -
  let ?root = "Path ''/'' [''srv'']"
  let ?p = "Path ''/'' [''srv'', ''templates'', ''page.html'']"
  let ?o = "Path ''/'' [''srv'', ''out.html'']"
  let ?pg = "\<lparr>template = ?p, output_path = ?o, page_ctx = [''name'' \<mapsto> ''World'']\<rparr>"
  let ?fs = "[(?root, Directory), (?p, File (''Hello {{name}}! '' @ [CHR 0x0A, CHR 0x09, CHR 0x0A]))]"
  let ?fs' = "(?o, File (''Hello World!'' @ [CHR 0x0A])) # ?fs"
  let ?w' = "\<lparr>files = ?fs', stdout = [''Rendered out.html from templates/page.html'']\<rparr>"
  have r: "render_template 100 (templates_dir ?root) ?fs [''name'' \<mapsto> ''World''] [] ?p
             = Inr (''Hello World! '' @ [CHR 0x0A, CHR 0x09, CHR 0x0A])"
    by (simp add: scan_defs path_defs file_defs render_template_simps)
  have s: "rstrip (''Hello World! '' @ [CHR 0x0A, CHR 0x09, CHR 0x0A]) = ''Hello World!''"
    by (simp add: rstrip_def is_space_def)
  have h: "build_page 100 ?root ?pg \<lparr>files = ?fs, stdout = []\<rparr> = (None, ?w')"
    by (simp add: build_page_def scan_defs path_defs file_defs render_template_simps rstrip_def)
  from build_page_output [OF h] r
  have "read_text ?fs' ?o = Inr (rstrip (''Hello World! '' @ [CHR 0x0A, CHR 0x09, CHR 0x0A]) @ [CHR 0x0A])"
    by auto
  with h r s show ?thesis by blast
qed


section \<open>What the patterns match\<close>

text \<open>
  The texts that the two regular expressions match, written without the scan. A
  placeholder for a key: two opening braces, optional whitespace, the key (not empty, of
  letters, digits and underscores), optional whitespace, two closing braces. An include
  directive for a relative path: the same with \<^verbatim>\<open>include:\<close> and optional whitespace
  before the path, whose characters may also be dots, slashes and hyphens.
\<close>

definition is_placeholder :: "string \<Rightarrow> string \<Rightarrow> bool" where
  "is_placeholder key ph \<longleftrightarrow>
     (\<exists>w1 w2. ph = ''{{'' @ w1 @ key @ w2 @ ''}}''
        \<and> (\<forall>c \<in> set w1. is_space c) \<and> key \<noteq> [] \<and> (\<forall>c \<in> set key. is_word_char c)
        \<and> (\<forall>c \<in> set w2. is_space c))"

definition is_include_directive :: "string \<Rightarrow> string \<Rightarrow> bool" where
  "is_include_directive rel d \<longleftrightarrow>
     (\<exists>w1 w2 w3. d = ''{{'' @ w1 @ ''include:'' @ w2 @ rel @ w3 @ ''}}''
        \<and> (\<forall>c \<in> set w1. is_space c) \<and> (\<forall>c \<in> set w2. is_space c)
        \<and> rel \<noteq> [] \<and> (\<forall>c \<in> set rel. is_path_char c) \<and> (\<forall>c \<in> set w3. is_space c))"

definition matches :: "pattern \<Rightarrow> string \<Rightarrow> string \<Rightarrow> bool" where
  "matches pat g m = (case pat of INCLUDE_RE \<Rightarrow> is_include_directive g m | VAR_RE \<Rightarrow> is_placeholder g m)"

text \<open>The matcher finds a match at the start of a text exactly when the text starts with one.\<close>

lemma match_at_iff:
  "match_at pat s = Some (g, rest) \<longleftrightarrow> (\<exists>m. s = m @ rest \<and> matches pat g m)"
proof (cases pat)
  case INCLUDE_RE
  show ?thesis
  proof
    assume "match_at pat s = Some (g, rest)"
    then obtain w1 w2 w3 where s: "s = ''{{'' @ w1 @ ''include:'' @ w2 @ g @ w3 @ ''}}'' @ rest"
      and w: "\<forall>c \<in> set w1. is_space c" "\<forall>c \<in> set w2. is_space c" "g \<noteq> []"
        "\<forall>c \<in> set g. is_path_char c" "\<forall>c \<in> set w3. is_space c"
      unfolding INCLUDE_RE match_at_INCLUDE_RE_iff by blast
    let ?m = "''{{'' @ w1 @ ''include:'' @ w2 @ g @ w3 @ ''}}''"
    have "s = ?m @ rest" using s by simp
    moreover have "matches pat g ?m"
      unfolding INCLUDE_RE matches_def is_include_directive_def using w by auto
    ultimately show "\<exists>m. s = m @ rest \<and> matches pat g m" by blast
  next
    assume "\<exists>m. s = m @ rest \<and> matches pat g m"
    then obtain w1 w2 w3 where "s = (''{{'' @ w1 @ ''include:'' @ w2 @ g @ w3 @ ''}}'') @ rest"
      and w: "\<forall>c \<in> set w1. is_space c" "\<forall>c \<in> set w2. is_space c" "g \<noteq> []"
        "\<forall>c \<in> set g. is_path_char c" "\<forall>c \<in> set w3. is_space c"
      unfolding INCLUDE_RE matches_def is_include_directive_def by auto
    then have "s = ''{{'' @ w1 @ ''include:'' @ w2 @ g @ w3 @ ''}}'' @ rest" by simp
    with w show "match_at pat s = Some (g, rest)"
      unfolding INCLUDE_RE match_at_INCLUDE_RE_iff by blast
  qed
next
  case VAR_RE
  show ?thesis
  proof
    assume "match_at pat s = Some (g, rest)"
    then obtain w1 w2 where s: "s = ''{{'' @ w1 @ g @ w2 @ ''}}'' @ rest"
      and w: "\<forall>c \<in> set w1. is_space c" "g \<noteq> []" "\<forall>c \<in> set g. is_word_char c"
        "\<forall>c \<in> set w2. is_space c"
      unfolding VAR_RE match_at_VAR_RE_iff by blast
    let ?m = "''{{'' @ w1 @ g @ w2 @ ''}}''"
    have "s = ?m @ rest" using s by simp
    moreover have "matches pat g ?m"
      unfolding VAR_RE matches_def is_placeholder_def using w by auto
    ultimately show "\<exists>m. s = m @ rest \<and> matches pat g m" by blast
  next
    assume "\<exists>m. s = m @ rest \<and> matches pat g m"
    then obtain w1 w2 where "s = (''{{'' @ w1 @ g @ w2 @ ''}}'') @ rest"
      and w: "\<forall>c \<in> set w1. is_space c" "g \<noteq> []" "\<forall>c \<in> set g. is_word_char c"
        "\<forall>c \<in> set w2. is_space c"
      unfolding VAR_RE matches_def is_placeholder_def by auto
    then have "s = ''{{'' @ w1 @ g @ w2 @ ''}}'' @ rest" by simp
    with w show "match_at pat s = Some (g, rest)"
      unfolding VAR_RE match_at_VAR_RE_iff by blast
  qed
qed

text \<open>A match is two braces, a body without an opening brace, and two braces.\<close>

lemma matches_shape:
  "matches pat g m \<Longrightarrow> \<exists>body. m = ''{{'' @ body @ ''}}'' \<and> CHR ''{'' \<notin> set body"
proof (cases pat)
  case INCLUDE_RE
  assume "matches pat g m"
  then obtain w1 w2 w3 where m: "m = ''{{'' @ w1 @ ''include:'' @ w2 @ g @ w3 @ ''}}''"
    and w: "\<forall>c \<in> set w1. is_space c" "\<forall>c \<in> set w2. is_space c"
      "\<forall>c \<in> set g. is_path_char c" "\<forall>c \<in> set w3. is_space c"
    unfolding INCLUDE_RE matches_def is_include_directive_def by auto
  have "\<not> is_space CHR ''{''" "\<not> is_path_char CHR ''{''"
    by (simp_all add: is_space_def is_path_char_def is_word_char_def)
  with w have "CHR ''{'' \<notin> set (w1 @ ''include:'' @ w2 @ g @ w3)" by auto
  moreover have "m = ''{{'' @ (w1 @ ''include:'' @ w2 @ g @ w3) @ ''}}''" using m by simp
  ultimately show ?thesis by blast
next
  case VAR_RE
  assume "matches pat g m"
  then obtain w1 w2 where m: "m = ''{{'' @ w1 @ g @ w2 @ ''}}''"
    and w: "\<forall>c \<in> set w1. is_space c" "\<forall>c \<in> set g. is_word_char c" "\<forall>c \<in> set w2. is_space c"
    unfolding VAR_RE matches_def is_placeholder_def by auto
  have "\<not> is_space CHR ''{''" "\<not> is_word_char CHR ''{''"
    by (simp_all add: is_space_def is_word_char_def)
  with w have "CHR ''{'' \<notin> set (w1 @ g @ w2)" by auto
  moreover have "m = ''{{'' @ (w1 @ g @ w2) @ ''}}''" using m by simp
  ultimately show ?thesis by blast
qed

text \<open>Two matches in a text do not overlap: the second starts where the first ends, or later.\<close>

lemma no_overlap:
  assumes "CHR ''{'' \<notin> set body"
    and eq: "(''{{'' @ body @ ''}}'') @ rest = pre @ ''{{'' @ u"
    and "pre \<noteq> []"
  shows "\<exists>pre'. rest = pre' @ ''{{'' @ u \<and> length pre' < length pre"
proof -
  let ?m = "''{{'' @ body @ ''}}''"
  from eq obtain us where
    "(?m = pre @ us \<and> us @ rest = ''{{'' @ u) \<or> (?m @ us = pre \<and> rest = us @ ''{{'' @ u)"
    unfolding append_eq_append_conv2 [of ?m rest pre "''{{'' @ u"] by blast
  then show ?thesis
  proof
    assume r: "?m @ us = pre \<and> rest = us @ ''{{'' @ u"
    then have "length us < length pre" by auto
    with r show ?thesis by blast
  next
    assume l: "?m = pre @ us \<and> us @ rest = ''{{'' @ u"
    show ?thesis
    proof (cases us)
      case Nil
      with l \<open>pre \<noteq> []\<close> show ?thesis by (intro exI [of _ "[]"]) simp
    next
      case (Cons x us1)
      with l have x: "x = CHR ''{''" by simp
      from \<open>pre \<noteq> []\<close> obtain p pre1 where pre: "pre = p # pre1" by (cases pre) auto
      from l pre Cons x have body: "CHR ''{'' # body @ ''}}'' = pre1 @ CHR ''{'' # us1" by auto
      show ?thesis
      proof (cases pre1)
        case (Cons q pre2)
        with body have "body @ ''}}'' = pre2 @ CHR ''{'' # us1" by simp
        then have "CHR ''{'' \<in> set (body @ ''}}'')" by simp
        with assms(1) show ?thesis by simp
      next
        case Nil
        with body have us1: "body @ ''}}'' = us1" by simp
        from l \<open>us = x # us1\<close> x have "CHR ''{'' # us1 @ rest = ''{{'' @ u" by simp
        then have "hd (us1 @ rest) = CHR ''{''" by simp
        moreover have "hd (us1 @ rest) = hd (body @ ''}}'')"
          using us1 by (metis append_is_Nil_conv hd_append2 list.distinct(1))
        moreover have "hd (body @ ''}}'') \<in> set (body @ ''}}'')" by (cases body) auto
        ultimately have "CHR ''{'' \<in> set (body @ ''}}'')" by metis
        with assms(1) show ?thesis by simp
      qed
    qed
  qed
qed

text \<open>The scan at a match: the match is a token, and the scan goes on after it.\<close>

lemma tokens_match:
  assumes "matches pat g m"
  shows "tokens pat (m @ rest) = Hit m g # tokens pat rest"
proof -
  from matches_shape [OF assms] obtain body where m: "m = ''{{'' @ body @ ''}}''" by blast
  then obtain c cs where cs: "m @ rest = c # cs" by simp
  have "match_at pat (m @ rest) = Some (g, rest)"
    using assms match_at_iff by blast
  moreover have "take (length (m @ rest) - length rest) (m @ rest) = m" by simp
  ultimately show ?thesis
    unfolding cs by (simp del: append.simps)
qed

lemma tokens_no_match:
  assumes "match_at pat (c # cs) = None"
  shows "tokens pat (c # cs) = Lit c # tokens pat cs"
  using assms by simp

text \<open>A text has a match for a group when a match for it stands somewhere in the text.\<close>

definition occurs :: "pattern \<Rightarrow> string \<Rightarrow> string \<Rightarrow> bool" where
  "occurs pat g s \<longleftrightarrow> (\<exists>pre m post. s = pre @ m @ post \<and> matches pat g m)"

lemma tokens_sound:
  "Hit w g \<in> set (tokens pat s) \<Longrightarrow> matches pat g w \<and> (\<exists>pre post. s = pre @ w @ post)"
proof (induction pat s rule: tokens.induct)
  case (1 pat)
  then show ?case by simp
next
  case (2 pat c cs)
  show ?case
  proof (cases "match_at pat (c # cs)")
    case None
    with 2 have "matches pat g w \<and> (\<exists>pre post. cs = pre @ w @ post)" by simp
    then obtain pre post where "matches pat g w" "cs = pre @ w @ post" by blast
    then have "c # cs = (c # pre) @ w @ post" by simp
    with \<open>matches pat g w\<close> show ?thesis by blast
  next
    case (Some a)
    obtain g' rest where a: "a = (g', rest)" by (cases a)
    from Some a obtain m where m: "c # cs = m @ rest" "matches pat g' m"
      using match_at_iff by blast
    from tokens_match [OF m(2), of rest] m(1)
    have t: "tokens pat (c # cs) = Hit m g' # tokens pat rest" by simp
    from "2.prems" t have "Hit w g = Hit m g' \<or> Hit w g \<in> set (tokens pat rest)" by simp
    then show ?thesis
    proof
      assume "Hit w g = Hit m g'"
      with m have "matches pat g w" "c # cs = [] @ w @ rest" by simp_all
      then show ?thesis by blast
    next
      assume "Hit w g \<in> set (tokens pat rest)"
      with "2.IH"(2) [OF Some a [symmetric]] obtain pre post
        where "matches pat g w" "rest = pre @ w @ post" by blast
      with m(1) have "c # cs = (m @ pre) @ w @ post" by simp
      with \<open>matches pat g w\<close> show ?thesis by blast
    qed
  qed
qed

lemma tokens_complete:
  "matches pat g m \<Longrightarrow> g \<in> set (groups (tokens pat (pre @ m @ post)))"
proof (induction pre rule: length_induct)
  case (1 pre)
  from matches_shape [OF "1.prems"] obtain body where m: "m = ''{{'' @ body @ ''}}''" by blast
  show ?case
  proof (cases pre)
    case Nil
    with tokens_match [OF "1.prems", of post] show ?thesis by simp
  next
    case (Cons c pre1)
    show ?thesis
    proof (cases "match_at pat (pre @ m @ post)")
      case None
      with Cons have "tokens pat (pre @ m @ post) = Lit c # tokens pat (pre1 @ m @ post)"
        by simp
      moreover from "1.IH" Cons "1.prems"
      have "g \<in> set (groups (tokens pat (pre1 @ m @ post)))" by simp
      ultimately show ?thesis by simp
    next
      case (Some a)
      obtain g' rest where a: "a = (g', rest)" by (cases a)
      from Some a obtain m' where m': "pre @ m @ post = m' @ rest" "matches pat g' m'"
        using match_at_iff by blast
      from matches_shape [OF m'(2)] obtain body' where
        b': "m' = ''{{'' @ body' @ ''}}''" "CHR ''{'' \<notin> set body'" by blast
      have "(''{{'' @ body' @ ''}}'') @ rest = pre @ ''{{'' @ (body @ ''}}'' @ post)"
        using m'(1) b'(1) m by simp
      from no_overlap [OF b'(2) this] Cons obtain pre' where
        pre': "rest = pre' @ ''{{'' @ (body @ ''}}'' @ post)" "length pre' < length pre"
        by auto
      then have "rest = pre' @ m @ post" using m by simp
      with "1.IH" pre'(2) "1.prems" have "g \<in> set (groups (tokens pat rest))" by simp
      moreover from tokens_match [OF m'(2), of rest] m'(1)
      have "tokens pat (pre @ m @ post) = Hit m' g' # tokens pat rest" by simp
      ultimately show ?thesis by simp
    qed
  qed
qed

lemma groups_Hit: "g \<in> set (groups ts) \<longleftrightarrow> (\<exists>w. Hit w g \<in> set ts)"
  by (induction ts rule: groups.induct) auto

text \<open>The groups that the scan finds are those of the matches that stand in the text.\<close>

lemma groups_tokens_iff: "g \<in> set (groups (tokens pat s)) \<longleftrightarrow> occurs pat g s"
proof
  assume "g \<in> set (groups (tokens pat s))"
  then obtain w where "Hit w g \<in> set (tokens pat s)" using groups_Hit by blast
  from tokens_sound [OF this] show "occurs pat g s" unfolding occurs_def by blast
next
  assume "occurs pat g s"
  then show "g \<in> set (groups (tokens pat s))"
    unfolding occurs_def using tokens_complete by blast
qed

section \<open>Templates without include directives\<close>

text \<open>
  The relative paths of the include directives of a text, and the keys of its
  placeholders, wherever they stand in the text.
\<close>

definition include_paths :: "string \<Rightarrow> string set" where
  "include_paths content =
     {rel. \<exists>pre d post. content = pre @ d @ post \<and> is_include_directive rel d}"

definition placeholder_keys :: "string \<Rightarrow> string set" where
  "placeholder_keys content =
     {key. \<exists>pre ph post. content = pre @ ph @ post \<and> is_placeholder key ph}"

lemma include_paths_tokens: "include_paths s = set (groups (tokens INCLUDE_RE s))"
  unfolding include_paths_def
  using groups_tokens_iff [of _ INCLUDE_RE s] by (auto simp: occurs_def matches_def)

lemma placeholder_keys_tokens: "placeholder_keys s = set (groups (tokens VAR_RE s))"
  unfolding placeholder_keys_def
  using groups_tokens_iff [of _ VAR_RE s] by (auto simp: occurs_def matches_def)

text \<open>
  A text and the text with its placeholders replaced, from left to right: where the text
  starts with a placeholder, the value of its key stands in its place; any other character
  is kept.
\<close>

inductive substituted :: "dict \<Rightarrow> string \<Rightarrow> string \<Rightarrow> bool" for ctx :: dict where
  empty: "substituted ctx [] []"
| placeholder:
    "is_placeholder key ph \<Longrightarrow> ctx key = Some v \<Longrightarrow> substituted ctx rest out \<Longrightarrow>
     substituted ctx (ph @ rest) (v @ out)"
| other:
    "\<not> (\<exists>key ph rest'. c # rest = ph @ rest' \<and> is_placeholder key ph) \<Longrightarrow>
     substituted ctx rest out \<Longrightarrow>
     substituted ctx (c # rest) (c # out)"

lemma substituted_var_sub:
  "substituted ctx s out \<Longrightarrow> var_sub ctx path (tokens VAR_RE s) = Inr out"
proof (induction rule: substituted.induct)
  case empty
  show ?case by simp
next
  case (placeholder key ph v rest out)
  then have "matches VAR_RE key ph" by (simp add: matches_def)
  from tokens_match [OF this, of rest] placeholder show ?case by simp
next
  case (other c rest out)
  have "match_at VAR_RE (c # rest) = None"
  proof (rule ccontr)
    assume "match_at VAR_RE (c # rest) \<noteq> None"
    then obtain g r where "match_at VAR_RE (c # rest) = Some (g, r)" by auto
    then obtain m where "c # rest = m @ r" "is_placeholder g m"
      using match_at_iff [of VAR_RE "c # rest" g r] by (auto simp: matches_def)
    with other.hyps(1) show False by blast
  qed
  with other.IH show ?case by simp
qed

lemma var_sub_substituted:
  "var_sub ctx path (tokens VAR_RE s) = Inr out \<Longrightarrow> substituted ctx s out"
proof (induction s arbitrary: out rule: length_induct)
  case (1 s)
  show ?case
  proof (cases s)
    case Nil
    with "1.prems" show ?thesis by (auto intro: substituted.empty)
  next
    case (Cons c cs)
    show ?thesis
    proof (cases "match_at VAR_RE (c # cs)")
      case None
      with "1.prems" Cons obtain r where r: "var_sub ctx path (tokens VAR_RE cs) = Inr r"
        and out: "out = c # r"
        by (auto split: sum.splits)
      from "1.IH" Cons r have "substituted ctx cs r" by simp
      moreover have "\<not> (\<exists>key ph rest'. c # cs = ph @ rest' \<and> is_placeholder key ph)"
      proof
        assume "\<exists>key ph rest'. c # cs = ph @ rest' \<and> is_placeholder key ph"
        then obtain key ph rest' where "c # cs = ph @ rest'" "matches VAR_RE key ph"
          by (auto simp: matches_def)
        then have "match_at VAR_RE (c # cs) = Some (key, rest')"
          using match_at_iff by blast
        with None show False by simp
      qed
      ultimately show ?thesis unfolding Cons out by (rule substituted.other [rotated])
    next
      case (Some a)
      obtain key rest where a: "a = (key, rest)" by (cases a)
      from Some a obtain ph where ph: "c # cs = ph @ rest" "matches VAR_RE key ph"
        using match_at_iff by blast
      from matches_shape [OF ph(2)] have "ph \<noteq> []" by auto
      moreover have "length (c # cs) = length ph + length rest"
        using ph(1) by (metis length_append)
      ultimately have len: "length rest < length s" using Cons by simp
      from tokens_match [OF ph(2), of rest] ph(1)
      have t: "tokens VAR_RE (c # cs) = Hit ph key # tokens VAR_RE rest" by simp
      from "1.prems" Cons t obtain v r where v: "ctx key = Some v"
        and r: "var_sub ctx path (tokens VAR_RE rest) = Inr r" and out: "out = v @ r"
        by (auto split: option.splits sum.splits)
      from "1.IH" len r have "substituted ctx rest r" by simp
      with ph(2) v have "substituted ctx (ph @ rest) (v @ r)"
        by (intro substituted.placeholder) (simp_all add: matches_def)
      with ph(1) Cons out show ?thesis by simp
    qed
  qed
qed

text \<open>
  C2. A template that passes the cycle check and can be read, whose text has no include
  directive anywhere, rendered with a context that has a value for the key of every
  placeholder in the text: the call returns a text, which is the text of the template
  with every placeholder replaced by the value of its key and every other character
  kept, and no other text is.
\<close>

theorem render_without_includes:
  assumes "path \<notin> set stack"
    and "read_text fs path = Inr content"
    and "include_paths content = {}"
    and "placeholder_keys content \<subseteq> dom ctx"
  shows "\<exists>out. render_template max_depth tdir fs ctx stack path = Inr out
           \<and> substituted ctx content out
           \<and> (\<forall>out'. substituted ctx content out' \<longrightarrow> out' = out)"
proof -
  from assms(3) have g: "groups (tokens INCLUDE_RE content) = []"
    by (simp add: include_paths_tokens)
  have "include_sub max_depth tdir fs ctx stack path (tokens INCLUDE_RE content) = Inr content"
    by (simp add: tokens_no_hits [OF g] include_sub_Lits)
  with assms(1,2)
  have r: "render_template max_depth tdir fs ctx stack path = var_sub ctx path (tokens VAR_RE content)"
    by (simp add: render_template_simps)
  from assms(4) have "set (groups (tokens VAR_RE content)) \<subseteq> dom ctx"
    by (simp add: placeholder_keys_tokens)
  then obtain out where out: "var_sub ctx path (tokens VAR_RE content) = Inr out"
    using var_sub_present [of "tokens VAR_RE content" ctx path] by simp
  show ?thesis
  proof (intro exI [of _ out] conjI allI impI)
    show "render_template max_depth tdir fs ctx stack path = Inr out"
      using r out by simp
    show "substituted ctx content out"
      using out by (rule var_sub_substituted)
    show "out' = out" if "substituted ctx content out'" for out'
      using substituted_var_sub [OF that, of path] out by simp
  qed
qed

text \<open>The example of the specification: \<^verbatim>\<open>Hello {{name}}!\<close> with the name \<^verbatim>\<open>World\<close>.\<close>

theorem render_without_includes_witness:
  "Path ''/'' [''srv'', ''templates'', ''page.html''] \<notin> set []
   \<and> read_text [(Path ''/'' [''srv'', ''templates'', ''page.html''], File ''Hello {{name}}!'')]
         (Path ''/'' [''srv'', ''templates'', ''page.html'']) = Inr ''Hello {{name}}!''
   \<and> include_paths ''Hello {{name}}!'' = {}
   \<and> placeholder_keys ''Hello {{name}}!'' \<subseteq> dom [''name'' \<mapsto> ''World'']
   \<and> render_template 100 (Path ''/'' [''srv'', ''templates''])
         [(Path ''/'' [''srv'', ''templates'', ''page.html''], File ''Hello {{name}}!'')]
         [''name'' \<mapsto> ''World''] [] (Path ''/'' [''srv'', ''templates'', ''page.html''])
       = Inr ''Hello World!''
   \<and> substituted [''name'' \<mapsto> ''World''] ''Hello {{name}}!'' ''Hello World!''"
proof -
  let ?p = "Path ''/'' [''srv'', ''templates'', ''page.html'']"
  let ?t = "Path ''/'' [''srv'', ''templates'']"
  let ?fs = "[(?p, File ''Hello {{name}}!'')]"
  let ?ctx = "[''name'' \<mapsto> ''World'']"
  have h1: "?p \<notin> set []" by simp
  have h2: "read_text ?fs ?p = Inr ''Hello {{name}}!''" by (simp add: file_defs)
  have h3: "include_paths ''Hello {{name}}!'' = {}"
    by (simp add: include_paths_tokens scan_defs)
  have h4: "placeholder_keys ''Hello {{name}}!'' \<subseteq> dom ?ctx"
    by (simp add: placeholder_keys_tokens scan_defs)
  from render_without_includes [OF h1 h2 h3 h4, of 100 ?t] obtain out
    where out: "render_template 100 ?t ?fs ?ctx [] ?p = Inr out"
      and sub: "substituted ?ctx ''Hello {{name}}!'' out"
    by blast
  have "substituted ?ctx ''Hello {{name}}!'' ''Hello World!''"
    by (rule var_sub_substituted [of _ ?p]) (simp add: scan_defs)
  with sub render_without_includes [OF h1 h2 h3 h4, of 100 ?t] have "out = ''Hello World!''"
    by blast
  with out sub h1 h2 h3 h4 show ?thesis by blast
qed

text \<open>Whitespace around the key belongs to the placeholder.\<close>

lemma render_placeholder_with_whitespace:
  "is_placeholder ''name'' ''{{ name  }}''
   \<and> render_template 100 (Path ''/'' [''srv'', ''templates''])
         [(Path ''/'' [''srv'', ''templates'', ''page.html''], File ''Hello {{ name  }}!'')]
         [''name'' \<mapsto> ''World''] [] (Path ''/'' [''srv'', ''templates'', ''page.html''])
       = Inr ''Hello World!''"
proof -
  have "''{{ name  }}'' = ''{{'' @ '' '' @ ''name'' @ ''  '' @ ''}}''" by simp
  moreover have "\<forall>c \<in> set '' ''. is_space c" "\<forall>c \<in> set ''  ''. is_space c"
    "\<forall>c \<in> set ''name''. is_word_char c"
    by (simp_all add: is_space_def is_word_char_def)
  ultimately have "is_placeholder ''name'' ''{{ name  }}''"
    unfolding is_placeholder_def by blast
  then show ?thesis
    by (simp add: render_template_simps scan_defs path_defs file_defs)
qed

text \<open>The scan of a text around a match: the text before it, the match, the text after it.\<close>

lemma tokens_split:
  "matches pat g m \<Longrightarrow> tokens pat (pre @ m @ post) = tokens pat pre @ Hit m g # tokens pat post"
proof (induction pre rule: length_induct)
  case (1 pre)
  from matches_shape [OF "1.prems"] obtain body where m: "m = ''{{'' @ body @ ''}}''" by blast
  show ?case
  proof (cases pre)
    case Nil
    with tokens_match [OF "1.prems", of post] show ?thesis by simp
  next
    case (Cons c pre1)
    show ?thesis
    proof (cases "match_at pat (pre @ m @ post)")
      case None
      have "match_at pat pre = None"
      proof (rule ccontr)
        assume "match_at pat pre \<noteq> None"
        then obtain g' r where "match_at pat pre = Some (g', r)" by auto
        then obtain m' where "pre = m' @ r" "matches pat g' m'" using match_at_iff by blast
        then have "pre @ m @ post = m' @ (r @ m @ post)" "matches pat g' m'" by simp_all
        then have "match_at pat (pre @ m @ post) = Some (g', r @ m @ post)"
          using match_at_iff by blast
        with None show False by simp
      qed
      with Cons have "tokens pat pre = Lit c # tokens pat pre1" by simp
      moreover from None Cons
      have "tokens pat (pre @ m @ post) = Lit c # tokens pat (pre1 @ m @ post)" by simp
      moreover from "1.IH" Cons "1.prems"
      have "tokens pat (pre1 @ m @ post) = tokens pat pre1 @ Hit m g # tokens pat post" by simp
      ultimately show ?thesis by simp
    next
      case (Some a)
      obtain g' rest where a: "a = (g', rest)" by (cases a)
      from Some a obtain m' where m': "pre @ m @ post = m' @ rest" "matches pat g' m'"
        using match_at_iff by blast
      from matches_shape [OF m'(2)] obtain body' where
        b': "m' = ''{{'' @ body' @ ''}}''" "CHR ''{'' \<notin> set body'" by blast
      have "(''{{'' @ body' @ ''}}'') @ rest = pre @ ''{{'' @ (body @ ''}}'' @ post)"
        using m'(1) b'(1) m by simp
      from no_overlap [OF b'(2) this] Cons obtain pre' where
        pre': "rest = pre' @ ''{{'' @ (body @ ''}}'' @ post)" "length pre' < length pre"
        by auto
      then have rest: "rest = pre' @ m @ post" using m by simp
      with m'(1) have "pre @ (m @ post) = (m' @ pre') @ (m @ post)" by simp
      then have pre: "pre = m' @ pre'" by (simp only: same_append_eq append_same_eq)
      from tokens_match [OF m'(2), of pre'] pre
      have "tokens pat pre = Hit m' g' # tokens pat pre'" by simp
      moreover from tokens_match [OF m'(2), of rest] m'(1)
      have "tokens pat (pre @ m @ post) = Hit m' g' # tokens pat rest" by simp
      moreover from "1.IH" pre'(2) "1.prems" rest
      have "tokens pat rest = tokens pat pre' @ Hit m g # tokens pat post" by simp
      ultimately show ?thesis by simp
    qed
  qed
qed

section \<open>Missing includes\<close>

text \<open>
  C4, as stated, fails: a directive that names a file which does not exist is reached only
  when everything before it in the text has been expanded. Here the first directive
  includes a template whose placeholder has no value, and the call raises \<^verbatim>\<open>KeyError\<close>
  although the second directive names a file that does not exist.
\<close>

theorem missing_include_counterexample:
  "read_text
     [(Path ''/'' [''srv'', ''templates'', ''page.html''],
         File ''{{include: a.html}}{{include: nope.html}}''),
      (Path ''/'' [''srv'', ''templates'', ''a.html''], File ''{{x}}'')]
     (Path ''/'' [''srv'', ''templates'', ''page.html''])
     = Inr ''{{include: a.html}}{{include: nope.html}}''
   \<and> groups (tokens INCLUDE_RE ''{{include: a.html}}{{include: nope.html}}'')
       = [''a.html'', ''nope.html'']
   \<and> path_exists
         [(Path ''/'' [''srv'', ''templates'', ''page.html''],
             File ''{{include: a.html}}{{include: nope.html}}''),
          (Path ''/'' [''srv'', ''templates'', ''a.html''], File ''{{x}}'')]
         (joinpath (Path ''/'' [''srv'', ''templates'']) ''nope.html'') = Inr False
   \<and> render_template 100 (Path ''/'' [''srv'', ''templates''])
         [(Path ''/'' [''srv'', ''templates'', ''page.html''],
             File ''{{include: a.html}}{{include: nope.html}}''),
          (Path ''/'' [''srv'', ''templates'', ''a.html''], File ''{{x}}'')]
         Map.empty [] (Path ''/'' [''srv'', ''templates'', ''page.html''])
       = Inl (KeyError (''Missing template variable '' @ [CHR 0x27] @ ''x'' @ [CHR 0x27]
                        @ '' for /srv/templates/a.html''))"
  by (simp add: scan_defs path_defs file_defs render_template_simps)

text \<open>
  The check whether the file exists can itself fail: the operating system may refuse to
  look the path up, and \<^verbatim>\<open>exists\<close> raises that error again. Then this error ends the
  call, not the one for a missing include.
\<close>

lemma refused_include:
  "path_exists
     [(Path ''/'' [''srv'', ''templates'', ''page.html''], File ''{{include: locked/a.html}}''),
      (Path ''/'' [''srv'', ''templates'', ''locked'', ''a.html''], Refused)]
     (joinpath (Path ''/'' [''srv'', ''templates'']) ''locked/a.html'')
     = Inl (OSError (Path ''/'' [''srv'', ''templates'', ''locked'', ''a.html'']))
   \<and> render_template 100 (Path ''/'' [''srv'', ''templates''])
         [(Path ''/'' [''srv'', ''templates'', ''page.html''], File ''{{include: locked/a.html}}''),
          (Path ''/'' [''srv'', ''templates'', ''locked'', ''a.html''], Refused)]
         Map.empty [] (Path ''/'' [''srv'', ''templates'', ''page.html''])
       = Inl (OSError (Path ''/'' [''srv'', ''templates'', ''locked'', ''a.html'']))"
  by (simp add: scan_defs path_defs file_defs render_template_simps)

text \<open>
  C4, amended. When the text of a template has an include directive, the check whether
  its path, joined to the template directory, exists returns false, and the text before
  the directive has been expanded without an error, the call raises
  \<^verbatim>\<open>FileNotFoundError\<close> and the message ends with that path.
\<close>

theorem render_missing_include:
  assumes "path \<notin> set stack"
    and "read_text fs path = Inr content"
    and "content = pre @ d @ post"
    and "is_include_directive include_rel d"
    and "include_sub max_depth tdir fs ctx stack path (tokens INCLUDE_RE pre) = Inr a"
    and "path_exists fs (joinpath tdir include_rel) = Inr False"
  shows "render_template max_depth tdir fs ctx stack path =
           Inl (FileNotFoundError
                 (''Missing included template: '' @ str_path (joinpath tdir include_rel)))"
proof -
  from assms(4) have "matches INCLUDE_RE include_rel d" by (simp add: matches_def)
  from tokens_split [OF this, of pre post]
  have "tokens INCLUDE_RE content = tokens INCLUDE_RE pre @ Hit d include_rel # tokens INCLUDE_RE post"
    by (simp add: assms(3))
  then have "include_sub max_depth tdir fs ctx stack path (tokens INCLUDE_RE content) =
          Inl (FileNotFoundError
                (''Missing included template: '' @ str_path (joinpath tdir include_rel)))"
    using assms(5,6) by (simp add: include_sub_append)
  with assms(1,2) show ?thesis by (simp add: render_template_simps)
qed

text \<open>The directive before the missing one is expanded; the missing one is reported.\<close>

theorem render_missing_include_witness:
  "Path ''/'' [''srv'', ''templates'', ''page.html''] \<notin> set []
   \<and> read_text
         [(Path ''/'' [''srv'', ''templates'', ''page.html''],
             File ''{{include: b.html}}{{ include:  nope.html }}!''),
          (Path ''/'' [''srv'', ''templates'', ''b.html''], File ''B'')]
         (Path ''/'' [''srv'', ''templates'', ''page.html''])
       = Inr ''{{include: b.html}}{{ include:  nope.html }}!''
   \<and> ''{{include: b.html}}{{ include:  nope.html }}!''
       = ''{{include: b.html}}'' @ ''{{ include:  nope.html }}'' @ ''!''
   \<and> is_include_directive ''nope.html'' ''{{ include:  nope.html }}''
   \<and> include_sub 100 (Path ''/'' [''srv'', ''templates''])
         [(Path ''/'' [''srv'', ''templates'', ''page.html''],
             File ''{{include: b.html}}{{ include:  nope.html }}!''),
          (Path ''/'' [''srv'', ''templates'', ''b.html''], File ''B'')]
         Map.empty [] (Path ''/'' [''srv'', ''templates'', ''page.html''])
         (tokens INCLUDE_RE ''{{include: b.html}}'') = Inr ''B''
   \<and> path_exists
         [(Path ''/'' [''srv'', ''templates'', ''page.html''],
             File ''{{include: b.html}}{{ include:  nope.html }}!''),
          (Path ''/'' [''srv'', ''templates'', ''b.html''], File ''B'')]
         (joinpath (Path ''/'' [''srv'', ''templates'']) ''nope.html'') = Inr False
   \<and> render_template 100 (Path ''/'' [''srv'', ''templates''])
         [(Path ''/'' [''srv'', ''templates'', ''page.html''],
             File ''{{include: b.html}}{{ include:  nope.html }}!''),
          (Path ''/'' [''srv'', ''templates'', ''b.html''], File ''B'')]
         Map.empty [] (Path ''/'' [''srv'', ''templates'', ''page.html''])
       = Inl (FileNotFoundError ''Missing included template: /srv/templates/nope.html'')"
proof -
  let ?p = "Path ''/'' [''srv'', ''templates'', ''page.html'']"
  let ?t = "Path ''/'' [''srv'', ''templates'']"
  let ?c = "''{{include: b.html}}{{ include:  nope.html }}!''"
  let ?fs = "[(?p, File ?c), (Path ''/'' [''srv'', ''templates'', ''b.html''], File ''B'')]"
  have h1: "?p \<notin> set []" by simp
  have h2: "read_text ?fs ?p = Inr ?c" by (simp add: file_defs)
  have h3: "?c = ''{{include: b.html}}'' @ ''{{ include:  nope.html }}'' @ ''!''" by simp
  have "''{{ include:  nope.html }}'' = ''{{'' @ '' '' @ ''include:'' @ ''  '' @ ''nope.html'' @ '' '' @ ''}}''"
    by simp
  moreover have "\<forall>c \<in> set '' ''. is_space c" "\<forall>c \<in> set ''  ''. is_space c"
    "\<forall>c \<in> set ''nope.html''. is_path_char c" "''nope.html'' \<noteq> []"
    by (simp_all add: is_space_def is_path_char_def is_word_char_def)
  ultimately have h4: "is_include_directive ''nope.html'' ''{{ include:  nope.html }}''"
    unfolding is_include_directive_def by blast
  have h5: "include_sub 100 ?t ?fs Map.empty [] ?p (tokens INCLUDE_RE ''{{include: b.html}}'') = Inr ''B''"
    by (simp add: scan_defs path_defs file_defs render_template_simps)
  have h6: "path_exists ?fs (joinpath ?t ''nope.html'') = Inr False"
    by (simp add: path_defs file_defs)
  have "render_template 100 ?t ?fs Map.empty [] ?p
          = Inl (FileNotFoundError ''Missing included template: /srv/templates/nope.html'')"
    using render_missing_include [OF h1 h2 h3 h4 h5 h6] by (simp add: path_defs)
  with h1 h2 h3 h4 h5 h6 show ?thesis by blast
qed

section \<open>The calls of a render\<close>

text \<open>
  Every call that a render makes has a stack without a repeated path, when the render
  itself has one; this is by induction over the recursion of the renderer.
\<close>

lemma call_stacks_distinct:
  "distinct stack \<Longrightarrow> Call s p \<in> set (events max_depth tdir fs ctx stack path) \<Longrightarrow> distinct s"
  "distinct (stack @ [path]) \<Longrightarrow>
     Call s p \<in> set (include_events max_depth tdir fs ctx stack path ts) \<Longrightarrow> distinct s"
proof (induction max_depth tdir fs ctx stack path and max_depth tdir fs ctx stack path ts
       arbitrary: and rule: run_template_run_include_sub.induct)
  case (1 max_depth tdir fs ctx stack path)
  show ?case
  proof (cases "path \<in> set stack")
    case True
    with "1.prems" show ?thesis by (simp add: events_simps)
  next
    case False
    show ?thesis
    proof (cases "read_text fs path")
      case (Inl e)
      with False "1.prems" show ?thesis by (simp add: events_simps)
    next
      case (Inr content)
      from False "1.prems"(1) have d: "distinct (stack @ [path])" by simp
      from "1.prems"(2) False Inr
      have "s = stack
            \<or> Call s p \<in> set (include_events max_depth tdir fs ctx stack path (tokens INCLUDE_RE content))"
        by (auto simp add: events_simps)
      with "1.IH" [OF False Inr d] "1.prems"(1) show ?thesis by blast
    qed
  qed
next
  case 2
  then show ?case by simp
next
  case 3
  then show ?case by simp
next
  case (4 max_depth tdir fs ctx stack path w include_rel ts)
  let ?q = "joinpath tdir include_rel"
  show ?case
  proof (cases "path_exists fs ?q")
    case (Inl e)
    with "4.prems" show ?thesis by simp
  next
    case (Inr found)
    show ?thesis
    proof (cases "found \<and> \<not> max_depth \<le> length stack")
      case False
      with Inr "4.prems" show ?thesis by (auto split: if_splits)
    next
      case True
      then have f: "\<not> \<not> found" and l: "\<not> max_depth \<le> length stack" by simp_all
      show ?thesis
      proof (cases "render_template max_depth tdir fs ctx (stack @ [path]) ?q")
        case (Inl e)
        with Inr True "4.prems"(2)
        have "Call s p \<in> set (events max_depth tdir fs ctx (stack @ [path]) ?q)" by simp
        with "4.IH"(1) [OF Inr f l "4.prems"(1)] show ?thesis .
      next
        case (Inr r)
        with \<open>path_exists fs ?q = Inr found\<close> True "4.prems"(2)
        have "Call s p \<in> set (events max_depth tdir fs ctx (stack @ [path]) ?q)
              \<or> Call s p \<in> set (include_events max_depth tdir fs ctx stack path ts)" by simp
        moreover note "4.IH"(1) [OF \<open>path_exists fs ?q = Inr found\<close> f l "4.prems"(1)]
        moreover note "4.IH"(2) [OF \<open>path_exists fs ?q = Inr found\<close> f l run_pair(1) [symmetric] Inr "4.prems"(1)]
        ultimately show ?thesis by blast
      qed
    qed
  qed
qed

text \<open>
  C8. In every call of \<^verbatim>\<open>_render_template\<close> that a top-level render makes, the render
  itself included, the paths of the stack are pairwise distinct; and when the call is
  past the cycle check, so are the paths of the stack with the path of the call at its
  end, which is the stack of the calls for its includes.
\<close>

theorem render_stack_distinct:
  assumes "Call stack path \<in> set (events max_depth tdir fs ctx [] start)"
  shows "distinct stack \<and> (path \<notin> set stack \<longrightarrow> distinct (stack @ [path]))"
  using call_stacks_distinct(1) [OF _ assms] by simp

text \<open>
  A template that includes itself: the second call has the stack of the first call's
  path, and it stops at the cycle check.
\<close>

theorem render_stack_distinct_witness:
  "events 100 (Path ''/'' [''srv'', ''templates''])
     [(Path ''/'' [''srv'', ''templates'', ''a.html''], File ''<{{include: b.html}}>''),
      (Path ''/'' [''srv'', ''templates'', ''b.html''], File ''{{include: a.html}}'')]
     Map.empty [] (Path ''/'' [''srv'', ''templates'', ''a.html''])
   = [Call [] (Path ''/'' [''srv'', ''templates'', ''a.html'']),
      Read (Path ''/'' [''srv'', ''templates'', ''a.html'']),
      Call [Path ''/'' [''srv'', ''templates'', ''a.html'']]
           (Path ''/'' [''srv'', ''templates'', ''b.html'']),
      Read (Path ''/'' [''srv'', ''templates'', ''b.html'']),
      Call [Path ''/'' [''srv'', ''templates'', ''a.html''],
            Path ''/'' [''srv'', ''templates'', ''b.html'']]
           (Path ''/'' [''srv'', ''templates'', ''a.html''])]
   \<and> distinct [Path ''/'' [''srv'', ''templates'', ''a.html''],
               Path ''/'' [''srv'', ''templates'', ''b.html'']]
   \<and> distinct ([Path ''/'' [''srv'', ''templates'', ''a.html'']]
               @ [Path ''/'' [''srv'', ''templates'', ''b.html'']])"
proof -
  let ?t = "Path ''/'' [''srv'', ''templates'']"
  let ?a = "Path ''/'' [''srv'', ''templates'', ''a.html'']"
  let ?b = "Path ''/'' [''srv'', ''templates'', ''b.html'']"
  let ?fs = "[(?a, File ''<{{include: b.html}}>''), (?b, File ''{{include: a.html}}'')]"
  have e: "events 100 ?t ?fs Map.empty [] ?a
             = [Call [] ?a, Read ?a, Call [?a] ?b, Read ?b, Call [?a, ?b] ?a]"
    by (simp add: scan_defs path_defs file_defs events_simps render_template_simps)
  then have "Call [?a, ?b] ?a \<in> set (events 100 ?t ?fs Map.empty [] ?a)"
    and "Call [?a] ?b \<in> set (events 100 ?t ?fs Map.empty [] ?a)" by simp_all
  from render_stack_distinct [OF this(1)] render_stack_distinct [OF this(2)] e
  show ?thesis by simp
qed

section \<open>Renders without a cycle\<close>





























end
